theory Spec2Isabelle
  imports Main "HOL-Library.Multiset"
begin

section \<open>Cards and hands\<close>

text \<open>
  \<^verbatim>\<open>createDeck\<close> builds cards \<^verbatim>\<open>{ suit, rank, hidden }\<close> from the arrays
  \<^verbatim>\<open>['hearts','diamonds','clubs','spades']\<close> and
  \<^verbatim>\<open>['A','2',...,'10','J','Q','K']\<close>. The two string enumerations become datatypes; the
  constructors \<open>N2\<close> ... \<open>N10\<close> stand for the strings \<^verbatim>\<open>'2'\<close> ... \<^verbatim>\<open>'10'\<close>.
\<close>

datatype suit = hearts | diamonds | clubs | spades

datatype rank = Ace | N2 | N3 | N4 | N5 | N6 | N7 | N8 | N9 | N10 | Jack | Queen | King

record card =
  suit :: suit
  rank :: rank
  hidden :: bool

text \<open>
  \<^verbatim>\<open>parseInt(card.rank, 10)\<close> on the numeral ranks. \<^verbatim>\<open>calculateScore\<close> reaches it
  only after the tests for \<^verbatim>\<open>'A'\<close> and \<^verbatim>\<open>['K','Q','J']\<close> have failed, so the last
  equation is never used.
\<close>

fun parseInt_rank :: "rank \<Rightarrow> int" where
  "parseInt_rank N2 = 2"
| "parseInt_rank N3 = 3"
| "parseInt_rank N4 = 4"
| "parseInt_rank N5 = 5"
| "parseInt_rank N6 = 6"
| "parseInt_rank N7 = 7"
| "parseInt_rank N8 = 8"
| "parseInt_rank N9 = 9"
| "parseInt_rank N10 = 10"
| "parseInt_rank r = 0"

subsection \<open>\<^verbatim>\<open>calculateScore\<close>\<close>

text \<open>
  The body of the \<^verbatim>\<open>for (const card of hand)\<close> loop, on the pair of the two local
  variables \<^verbatim>\<open>score\<close> and \<^verbatim>\<open>aces\<close>.
\<close>

definition score_step :: "card \<Rightarrow> int \<times> nat \<Rightarrow> int \<times> nat" where
  "score_step c acc =
     (case acc of (score, aces) \<Rightarrow>
        if hidden c then (score, aces)
        else if rank c = Ace then (score + 11, aces + 1)
        else if rank c \<in> {King, Queen, Jack} then (score + 10, aces)
        else (score + parseInt_rank (rank c), aces))"

text \<open>The loop \<^verbatim>\<open>while (score > 21 && aces > 0) { score -= 10; aces -= 1; }\<close>.\<close>

function soften :: "int \<Rightarrow> nat \<Rightarrow> int" where
  "soften score aces = (if score > 21 \<and> aces > 0 then soften (score - 10) (aces - 1) else score)"
  by pat_completeness auto
termination
  by (relation "measure (\<lambda>(score, aces). aces)") auto

declare soften.simps [simp del]

definition calculateScore :: "card list \<Rightarrow> int" where
  "calculateScore hand = (case fold score_step hand (0, 0) of (score, aces) \<Rightarrow> soften score aces)"

subsection \<open>The totals a hand can be counted as\<close>

text \<open>
  The specification's reading of a hand: every card that is not hidden counts its rank
  value, and each Ace may be counted as 1 or as 11. \<open>totals\<close> lists every total that some
  choice for the Aces gives. It is written from the specification's words, to be compared
  with \<open>calculateScore\<close>.
\<close>

fun spec_value :: "rank \<Rightarrow> int" where
  "spec_value Ace = 11"
| "spec_value N2 = 2"
| "spec_value N3 = 3"
| "spec_value N4 = 4"
| "spec_value N5 = 5"
| "spec_value N6 = 6"
| "spec_value N7 = 7"
| "spec_value N8 = 8"
| "spec_value N9 = 9"
| "spec_value N10 = 10"
| "spec_value Jack = 10"
| "spec_value Queen = 10"
| "spec_value King = 10"

fun totals :: "card list \<Rightarrow> int list" where
  "totals [] = [0]"
| "totals (c # cs) =
     (if hidden c then totals cs
      else if rank c = Ace then map (\<lambda>t. t + 1) (totals cs) @ map (\<lambda>t. t + 11) (totals cs)
      else map (\<lambda>t. t + spec_value (rank c)) (totals cs))"

text \<open>The hand counted with every Ace as 1, and the number of Aces that are not hidden.\<close>

definition open_cards :: "card list \<Rightarrow> card list" where
  "open_cards hand = filter (\<lambda>c. \<not> hidden c) hand"

fun low_total :: "card list \<Rightarrow> int" where
  "low_total [] = 0"
| "low_total (c # cs) =
     (if hidden c then low_total cs
      else if rank c = Ace then 1 + low_total cs
      else spec_value (rank c) + low_total cs)"

fun open_aces :: "card list \<Rightarrow> nat" where
  "open_aces [] = 0"
| "open_aces (c # cs) = (if \<not> hidden c \<and> rank c = Ace then Suc (open_aces cs) else open_aces cs)"

section \<open>Sessions and the process-wide stores\<close>

subsection \<open>Data\<close>

datatype game_state = WAITING_FOR_BET | PLAYER_TURN | DEALER_TURN | GAME_ENDED

text \<open>The table \<^verbatim>\<open>VALID_GAME_STATES\<close> and \<^verbatim>\<open>isValidStateTransition\<close>.\<close>

fun VALID_GAME_STATES :: "game_state \<Rightarrow> game_state list" where
  "VALID_GAME_STATES WAITING_FOR_BET = [PLAYER_TURN]"
| "VALID_GAME_STATES PLAYER_TURN = [DEALER_TURN, GAME_ENDED]"
| "VALID_GAME_STATES DEALER_TURN = [GAME_ENDED]"
| "VALID_GAME_STATES GAME_ENDED = []"

definition isValidStateTransition :: "game_state \<Rightarrow> game_state \<Rightarrow> bool" where
  "isValidStateTransition currentState newState \<longleftrightarrow> newState \<in> set (VALID_GAME_STATES currentState)"

text \<open>The fields of a \<^verbatim>\<open>BlackjackGame\<close> object.\<close>

record game =
  playerId :: string
  gameId :: string
  completed :: bool
  deck :: "card list"
  playerHand :: "card list"
  dealerHand :: "card list"
  state :: game_state
  currentBet :: int
  rewardPaid :: bool
  stateHistory :: "game_state list"

text \<open>
  A value of the map \<^verbatim>\<open>completedGames\<close>:
  \<^verbatim>\<open>{ playerId, result: 'win' | 'loss', timestamp, processed }\<close>.
\<close>

datatype game_result = win | loss

record completion =
  entry_playerId :: string
  result :: game_result
  timestamp :: nat
  processed :: bool

text \<open>A value of the map \<^verbatim>\<open>paidRewards\<close>: \<^verbatim>\<open>'pending'\<close>, \<^verbatim>\<open>'completed'\<close> or \<^verbatim>\<open>'failed'\<close>.\<close>

datatype reward_status = Pending | Completed | Failed

text \<open>
  The calls \<^verbatim>\<open>sendCardsReward\<close> makes to the Solana client, in the order of its
  \<^verbatim>\<open>try\<close> block. \<open>SendRawTransaction receiver amount\<close> is the transfer itself.
\<close>

datatype chain_call =
    GetAssociatedTokenAddress
  | GetAccountInfo
  | GetRecentBlockhash
  | SendRawTransaction string int

text \<open>
  What the program does to the world outside a session object, in the order it does it:
  the writes to the two ledgers, the calls to the chain and the timer that
  \<^verbatim>\<open>markGameAsCompleted\<close> starts. The stores keep this list so that the order of the
  statements of \<^verbatim>\<open>processReward\<close> and \<^verbatim>\<open>sendCardsReward\<close> can be stated.
\<close>

datatype event =
    CompletedGamesSet string completion
  | PaidRewardsSet string reward_status
  | ChainCall chain_call
  | SetTimeout string

text \<open>
  The module-level stores \<^verbatim>\<open>games\<close>, \<^verbatim>\<open>activePlayers\<close>, \<^verbatim>\<open>completedGames\<close> and
  \<^verbatim>\<open>paidRewards\<close>, and the list of events so far.
\<close>

record server =
  games :: "string \<rightharpoonup> game"
  activePlayers :: "string set"
  completedGames :: "string \<rightharpoonup> completion"
  paidRewards :: "string \<rightharpoonup> reward_status"
  trace :: "event list"

text \<open>
  What a run of the program reads from outside: whether \<^verbatim>\<open>new PublicKey(s)\<close> accepts a
  string (the Solana library is not part of the repository), the clock, the draws of
  \<^verbatim>\<open>Math.random()\<close> in the shuffle (\<open>Math_random w i\<close> stands for
  \<^verbatim>\<open>Math.floor(Math.random() * (i + 1))\<close> at loop index \<open>i\<close> and is reduced into
  \<open>0..i\<close>), and the sixteen random characters of a generated id. One operation reads
  one clock value.
\<close>

record world =
  PublicKey_ok :: "string \<Rightarrow> bool"
  Date_now :: nat
  Math_random :: "nat \<Rightarrow> nat"
  random_chars :: string

text \<open>
  How the chain answers one payout: the first call that throws, the receiver's token
  account missing, or the signature that \<^verbatim>\<open>sendRawTransaction\<close> returns.
\<close>

datatype chain_outcome =
    AtaFails
  | AccountInfoFails
  | AccountMissing
  | BlockhashFails
  | SendFails
  | SendOk string

text \<open>The exceptions of the program. \<open>DeckExhausted\<close> is the \<^verbatim>\<open>TypeError\<close> that reading a
  card popped from an empty deck raises.\<close>

datatype error =
    InvalidPlayerAccount
  | AlreadyActive
  | InvalidTransition game_state game_state
  | CannotHit
  | CannotStand
  | GameAlreadyCompleted
  | DeckExhausted
  | InvalidSolanaAddress
  | ReceiverNeedsTokenAccount
  | ChainError chain_outcome

definition ENTRY_FEE :: int where
  "ENTRY_FEE = 3"

definition REWARD_AMOUNT :: int where
  "REWARD_AMOUNT = 5"

subsection \<open>Identifiers\<close>

text \<open>\<^verbatim>\<open>Number.prototype.toString(36)\<close> on a natural number.\<close>

definition digit36 :: "nat \<Rightarrow> char" where
  "digit36 d = ''0123456789abcdefghijklmnopqrstuvwxyz'' ! d"

function toString36 :: "nat \<Rightarrow> string" where
  "toString36 n = (if n < 36 then [digit36 n] else toString36 (n div 36) @ [digit36 (n mod 36)])"
  by pat_completeness auto
termination
  by (relation "measure (\<lambda>n. n)") auto

declare toString36.simps [simp del]

text \<open>
  \<^verbatim>\<open>generateSecureId\<close>: the clock in base 36, a dash, and sixteen characters drawn from
  the letters and digits.
\<close>

definition generateSecureId :: "world \<Rightarrow> string" where
  "generateSecureId w = toString36 (Date_now w) @ ''-'' @ random_chars w"

text \<open>The key \<^verbatim>\<open>`${receiverAddress}-${gameId}`\<close> of \<^verbatim>\<open>paidRewards\<close>.\<close>

definition transactionKey :: "string \<Rightarrow> string \<Rightarrow> string" where
  "transactionKey receiverAddress gid = receiverAddress @ ''-'' @ gid"

subsection \<open>The deck\<close>

definition suits :: "suit list" where
  "suits = [hearts, diamonds, clubs, spades]"

definition ranks :: "rank list" where
  "ranks = [Ace, N2, N3, N4, N5, N6, N7, N8, N9, N10, Jack, Queen, King]"

text \<open>The three nested loops of \<^verbatim>\<open>createDeck\<close>: six decks, in the order pushed.\<close>

definition six_decks :: "card list" where
  "six_decks =
     concat (replicate 6
       (concat (map (\<lambda>s. map (\<lambda>r. \<lparr>suit = s, rank = r, hidden = False\<rparr>) ranks) suits)))"

text \<open>
  The Fisher-Yates loop \<^verbatim>\<open>for (let i = deck.length - 1; i > 0; i--)\<close>, which swaps
  \<^verbatim>\<open>deck[i]\<close> and \<^verbatim>\<open>deck[j]\<close>.
\<close>

fun shuffle :: "(nat \<Rightarrow> nat) \<Rightarrow> nat \<Rightarrow> card list \<Rightarrow> card list" where
  "shuffle r 0 d = d"
| "shuffle r (Suc i) d =
     (let j = r (Suc i) mod (Suc i + 1)
      in shuffle r i (d[Suc i := d ! j, j := d ! Suc i]))"

definition createDeck :: "world \<Rightarrow> card list" where
  "createDeck w = shuffle (Math_random w) (length six_decks - 1) six_decks"

text \<open>\<^verbatim>\<open>Array.prototype.pop\<close>: the last element; \<open>None\<close> for \<^verbatim>\<open>undefined\<close>.\<close>

definition pop :: "'a list \<Rightarrow> ('a \<times> 'a list) option" where
  "pop xs = (if xs = [] then None else Some (last xs, butlast xs))"

subsection \<open>The payout: \<^verbatim>\<open>sendCardsReward\<close> and \<^verbatim>\<open>processReward\<close>\<close>

text \<open>
  Both functions are \<^verbatim>\<open>async\<close>. A call runs at once up to its first \<^verbatim>\<open>await\<close> that
  has to wait; the rest runs later, when the chain has answered. Each function is
  therefore two definitions, \<open>_start\<close> and \<open>_resume\<close>, and their composition, which is
  the call run to its end with nothing in between.
\<close>

text \<open>The calls a payout makes to the chain before it stops, by the chain's answer.\<close>

fun chain_calls :: "chain_outcome \<Rightarrow> string \<Rightarrow> chain_call list" where
  "chain_calls AtaFails receiver = [GetAssociatedTokenAddress]"
| "chain_calls AccountInfoFails receiver =
     [GetAssociatedTokenAddress, GetAssociatedTokenAddress, GetAccountInfo]"
| "chain_calls AccountMissing receiver =
     [GetAssociatedTokenAddress, GetAssociatedTokenAddress, GetAccountInfo]"
| "chain_calls BlockhashFails receiver =
     [GetAssociatedTokenAddress, GetAssociatedTokenAddress, GetAccountInfo, GetRecentBlockhash]"
| "chain_calls SendFails receiver =
     [GetAssociatedTokenAddress, GetAssociatedTokenAddress, GetAccountInfo, GetRecentBlockhash,
      SendRawTransaction receiver (REWARD_AMOUNT * 10 ^ 9)]"
| "chain_calls (SendOk signature) receiver =
     [GetAssociatedTokenAddress, GetAssociatedTokenAddress, GetAccountInfo, GetRecentBlockhash,
      SendRawTransaction receiver (REWARD_AMOUNT * 10 ^ 9)]"

text \<open>How \<^verbatim>\<open>sendCardsReward\<close> stands when it first waits, or how it ended before that.\<close>

datatype send_start = SendThrew error | SendReturnedNull | SendAwaitsChain

definition paidRewards_set :: "string \<Rightarrow> reward_status \<Rightarrow> server \<Rightarrow> server" where
  "paidRewards_set key st srv =
     srv\<lparr>paidRewards := (paidRewards srv)(key \<mapsto> st), trace := trace srv @ [PaidRewardsSet key st]\<rparr>"

definition completedGames_set :: "string \<Rightarrow> completion \<Rightarrow> server \<Rightarrow> server" where
  "completedGames_set gid entry srv =
     srv\<lparr>completedGames := (completedGames srv)(gid \<mapsto> entry),
         trace := trace srv @ [CompletedGamesSet gid entry]\<rparr>"

definition sendCardsReward_start :: "world \<Rightarrow> string \<Rightarrow> string \<Rightarrow> server \<Rightarrow> send_start \<times> server" where
  "sendCardsReward_start w receiverAddress gid srv =
     (if \<not> PublicKey_ok w receiverAddress then (SendThrew InvalidSolanaAddress, srv)
      else
        let key = transactionKey receiverAddress gid in
        if paidRewards srv key \<noteq> None then (SendReturnedNull, srv)
        else (SendAwaitsChain, paidRewards_set key Pending srv))"

definition sendCardsReward_resume ::
    "chain_outcome \<Rightarrow> string \<Rightarrow> string \<Rightarrow> server \<Rightarrow> (error + string option) \<times> server" where
  "sendCardsReward_resume chain receiverAddress gid srv =
     (let key = transactionKey receiverAddress gid;
          srv1 = srv\<lparr>trace := trace srv @ map ChainCall (chain_calls chain receiverAddress)\<rparr>
      in case chain of
           SendOk signature \<Rightarrow> (Inr (Some signature), paidRewards_set key Completed srv1)
         | AccountMissing \<Rightarrow> (Inl ReceiverNeedsTokenAccount, paidRewards_set key Failed srv1)
         | _ \<Rightarrow> (Inl (ChainError chain), paidRewards_set key Failed srv1))"

definition sendCardsReward ::
    "world \<Rightarrow> chain_outcome \<Rightarrow> string \<Rightarrow> string \<Rightarrow> server \<Rightarrow> (error + string option) \<times> server" where
  "sendCardsReward w chain receiverAddress gid srv =
     (case sendCardsReward_start w receiverAddress gid srv of
        (SendThrew e, srv1) \<Rightarrow> (Inl e, srv1)
      | (SendReturnedNull, srv1) \<Rightarrow> (Inr None, srv1)
      | (SendAwaitsChain, srv1) \<Rightarrow> sendCardsReward_resume chain receiverAddress gid srv1)"

text \<open>
  \<^verbatim>\<open>processReward\<close> up to \<^verbatim>\<open>await sendCardsReward(...)\<close>. \<open>None\<close>: it returned at the
  guard. Otherwise the entry it holds in \<^verbatim>\<open>gameCompletion\<close> and how
  \<^verbatim>\<open>sendCardsReward\<close> stands.
\<close>

definition processReward_start ::
    "world \<Rightarrow> game \<Rightarrow> server \<Rightarrow> (completion \<times> send_start) option \<times> server" where
  "processReward_start w g srv =
     (case completedGames srv (gameId g) of
        None \<Rightarrow> (None, srv)
      | Some gameCompletion \<Rightarrow>
          if processed gameCompletion then (None, srv)
          else
            let gc = gameCompletion\<lparr>processed := True\<rparr>;
                srv1 = completedGames_set (gameId g) gc srv
            in case sendCardsReward_start w (playerId g) (gameId g) srv1 of
                 (st, srv2) \<Rightarrow> (Some (gc, st), srv2))"

text \<open>The \<^verbatim>\<open>catch\<close> block of \<^verbatim>\<open>processReward\<close>.\<close>

definition processReward_catch :: "error \<Rightarrow> completion \<Rightarrow> game \<Rightarrow> server \<Rightarrow> (error + unit) \<times> game \<times> server" where
  "processReward_catch e gc g srv =
     (Inl e, g, completedGames_set (gameId g) (gc\<lparr>processed := False\<rparr>) srv)"

definition processReward_resume ::
    "chain_outcome \<Rightarrow> completion \<times> send_start \<Rightarrow> game \<Rightarrow> server \<Rightarrow> (error + unit) \<times> game \<times> server" where
  "processReward_resume chain k g srv =
     (case k of
        (gc, SendThrew e) \<Rightarrow> processReward_catch e gc g srv
      | (gc, SendReturnedNull) \<Rightarrow> (Inr (), g\<lparr>rewardPaid := True\<rparr>, srv)
      | (gc, SendAwaitsChain) \<Rightarrow>
          (case sendCardsReward_resume chain (playerId g) (gameId g) srv of
             (Inl e, srv1) \<Rightarrow> processReward_catch e gc g srv1
           | (Inr signature, srv1) \<Rightarrow> (Inr (), g\<lparr>rewardPaid := True\<rparr>, srv1)))"

definition processReward ::
    "world \<Rightarrow> chain_outcome \<Rightarrow> game \<Rightarrow> server \<Rightarrow> (error + unit) \<times> game \<times> server" where
  "processReward w chain g srv =
     (case processReward_start w g srv of
        (None, srv1) \<Rightarrow> (Inr (), g, srv1)
      | (Some k, srv1) \<Rightarrow> processReward_resume chain k g srv1)"

text \<open>The calls to the chain among the events, in their order.\<close>

fun calls_of :: "event list \<Rightarrow> chain_call list" where
  "calls_of [] = []"
| "calls_of (ChainCall c # es) = c # calls_of es"
| "calls_of (e # es) = calls_of es"

subsection \<open>The session's methods\<close>

definition transitionState :: "game_state \<Rightarrow> game \<Rightarrow> error + game" where
  "transitionState newState g =
     (if \<not> isValidStateTransition (state g) newState
      then Inl (InvalidTransition (state g) newState)
      else Inr (g\<lparr>state := newState, stateHistory := stateHistory g @ [newState]\<rparr>))"

text \<open>
  \<^verbatim>\<open>markGameAsCompleted\<close>. The call \<^verbatim>\<open>this.processReward()\<close> is not awaited: it runs
  up to its first wait, and the rest (\<open>processReward_resume\<close>) and the timer
  (\<open>release_timer\<close>) run after the operation that ended the game has returned.
\<close>

definition markGameAsCompleted :: "world \<Rightarrow> bool \<Rightarrow> game \<Rightarrow> server \<Rightarrow> game \<times> server" where
  "markGameAsCompleted w playerWon g srv =
     (if completed g then (g, srv)
      else
        let g1 = g\<lparr>completed := True\<rparr>;
            srv1 = completedGames_set (gameId g1)
                     \<lparr>entry_playerId = playerId g1,
                      result = (if playerWon then win else loss),
                      timestamp = Date_now w,
                      processed = False\<rparr> srv;
            srv2 = (if playerWon then snd (processReward_start w g1 srv1) else srv1)
        in (g1, srv2\<lparr>trace := trace srv2 @ [SetTimeout (playerId g1)]\<rparr>))"

text \<open>The timer's callback, five seconds later.\<close>

definition release_timer :: "string \<Rightarrow> server \<Rightarrow> server" where
  "release_timer pid srv = srv\<lparr>activePlayers := activePlayers srv - {pid}\<rparr>"

text \<open>
  \<^verbatim>\<open>dealInitialCards\<close>: four pops, the player's two cards first, the dealer's second
  card copied with \<^verbatim>\<open>hidden: true\<close>.
\<close>

definition dealInitialCards :: "world \<Rightarrow> game \<Rightarrow> server \<Rightarrow> error + game \<times> server" where
  "dealInitialCards w g srv =
     (case pop (deck g) of None \<Rightarrow> Inl DeckExhausted | Some (c1, d1) \<Rightarrow>
      case pop d1 of None \<Rightarrow> Inl DeckExhausted | Some (c2, d2) \<Rightarrow>
      case pop d2 of None \<Rightarrow> Inl DeckExhausted | Some (c3, d3) \<Rightarrow>
      case pop d3 of None \<Rightarrow> Inl DeckExhausted | Some (c4, d4) \<Rightarrow>
        let g1 = g\<lparr>deck := d4, playerHand := [c1, c2], dealerHand := [c3, c4\<lparr>hidden := True\<rparr>]\<rparr>;
            playerScore = calculateScore (playerHand g1)
        in if playerScore = 21
           then (case transitionState GAME_ENDED g1 of
                   Inl e \<Rightarrow> Inl e
                 | Inr g2 \<Rightarrow> Inr (markGameAsCompleted w True g2 srv))
           else Inr (g1, srv))"

text \<open>
  \<^verbatim>\<open>reset\<close>. It calls \<^verbatim>\<open>dealInitialCards\<close>, an \<^verbatim>\<open>async\<close> function without an
  \<^verbatim>\<open>await\<close> in it, which therefore runs to its end inside the call. An exception in it
  would not reach \<^verbatim>\<open>reset\<close>; none is thrown, since the deck is new and the state is
  \<^verbatim>\<open>PLAYER_TURN\<close> (\<open>reset_returns\<close> below).
\<close>

definition reset :: "world \<Rightarrow> game \<Rightarrow> server \<Rightarrow> error + game \<times> server" where
  "reset w g srv =
     dealInitialCards w
       (g\<lparr>deck := createDeck w,
          playerHand := [],
          dealerHand := [],
          state := PLAYER_TURN,
          currentBet := ENTRY_FEE,
          rewardPaid := False,
          gameId := generateSecureId w,
          completed := False,
          stateHistory := [PLAYER_TURN]\<rparr>)
       srv"

text \<open>
  The constructor. The fields that \<^verbatim>\<open>reset\<close> assigns do not exist before it runs; the
  record holds there the values \<^verbatim>\<open>reset\<close> gives them.
\<close>

definition BlackjackGame :: "world \<Rightarrow> string \<Rightarrow> server \<Rightarrow> error + game \<times> server" where
  "BlackjackGame w pid srv =
     (if \<not> PublicKey_ok w pid then Inl InvalidPlayerAccount
      else if pid \<in> activePlayers srv then Inl AlreadyActive
      else
        reset w
          \<lparr>playerId = pid, gameId = generateSecureId w, completed = False, deck = [],
           playerHand = [], dealerHand = [], state = PLAYER_TURN, currentBet = ENTRY_FEE,
           rewardPaid = False, stateHistory = []\<rparr>
          (srv\<lparr>activePlayers := insert pid (activePlayers srv)\<rparr>))"

text \<open>
  \<^verbatim>\<open>hit\<close> and \<^verbatim>\<open>stand\<close>. The value they return, \<^verbatim>\<open>this.getGameState()\<close>, is
  \<open>getGameState\<close> of the session returned here.
\<close>

definition hit :: "world \<Rightarrow> game \<Rightarrow> server \<Rightarrow> error + game \<times> server" where
  "hit w g srv =
     (if state g \<noteq> PLAYER_TURN then Inl CannotHit
      else case pop (deck g) of None \<Rightarrow> Inl DeckExhausted | Some (c, d) \<Rightarrow>
        let g1 = g\<lparr>deck := d, playerHand := playerHand g @ [c]\<rparr>;
            playerScore = calculateScore (playerHand g1)
        in if playerScore > 21
           then (case transitionState GAME_ENDED g1 of
                   Inl e \<Rightarrow> Inl e
                 | Inr g2 \<Rightarrow> Inr (markGameAsCompleted w False g2 srv))
           else if playerScore = 21
           then (case transitionState GAME_ENDED g1 of
                   Inl e \<Rightarrow> Inl e
                 | Inr g2 \<Rightarrow> Inr (markGameAsCompleted w True g2 srv))
           else Inr (g1, srv))"

text \<open>
  The dealer's loop in \<^verbatim>\<open>stand\<close>,
  \<^verbatim>\<open>while (dealerScore < 17) { this.dealerHand.push(this.deck.pop()); ... }\<close>,
  on the deck and the dealer's hand.
\<close>

function dealer_draws :: "card list \<Rightarrow> card list \<Rightarrow> (card list \<times> card list) option" where
  "dealer_draws d h =
     (if calculateScore h < 17
      then (if d = [] then None else dealer_draws (butlast d) (h @ [last d]))
      else Some (d, h))"
  by pat_completeness auto
termination
  by (relation "measure (\<lambda>(d, h). length d)") auto

declare dealer_draws.simps [simp del]

definition stand :: "world \<Rightarrow> game \<Rightarrow> server \<Rightarrow> error + game \<times> server" where
  "stand w g srv =
     (if state g \<noteq> PLAYER_TURN then Inl CannotStand
      else if completed g then Inl GameAlreadyCompleted
      else case transitionState DEALER_TURN g of Inl e \<Rightarrow> Inl e | Inr g1 \<Rightarrow>
        case dealer_draws (deck g1) (map (\<lambda>card. card\<lparr>hidden := False\<rparr>) (dealerHand g1)) of
          None \<Rightarrow> Inl DeckExhausted
        | Some (d, h) \<Rightarrow>
            let g2 = g1\<lparr>deck := d, dealerHand := h\<rparr>;
                dealerScore = calculateScore h
            in case transitionState GAME_ENDED g2 of Inl e \<Rightarrow> Inl e | Inr g3 \<Rightarrow>
              let playerScore = calculateScore (playerHand g3);
                  playerWon =
                    (if playerScore > 21 then False
                     else if dealerScore > 21 \<or> playerScore > dealerScore then True
                     else False)
              in Inr (markGameAsCompleted w playerWon g3 srv))"

subsection \<open>The view of a session: \<^verbatim>\<open>getGameState\<close>\<close>

text \<open>An element of the \<^verbatim>\<open>dealerHand\<close> sent to the client: \<^verbatim>\<open>{ hidden: true }\<close> or the card.\<close>

datatype card_view = HiddenCard | Shown card

record snapshot =
  view_playerHand :: "card list"
  view_dealerHand :: "card_view list"
  view_state :: game_state
  view_currentBet :: int
  view_playerScore :: int
  view_dealerScore :: int
  view_message :: string
  view_gameId :: string
  view_rewardPaid :: bool
  view_completed :: bool

definition getMessage :: "game \<Rightarrow> string" where
  "getMessage g =
     (let playerScore = calculateScore (playerHand g);
          dealerScore = calculateScore (dealerHand g)
      in case state g of
           WAITING_FOR_BET \<Rightarrow> ''Place your bet to start the game''
         | PLAYER_TURN \<Rightarrow> ''Your turn! Hit or Stand?''
         | DEALER_TURN \<Rightarrow> ''Dealer'' @ [CHR 0x27] @ ''s turn...''
         | GAME_ENDED \<Rightarrow>
             if playerScore > 21 then ''Bust! You lost!''
             else if playerScore = 21 then ''Perfect 21! You win!''
             else if dealerScore > 21 then ''Dealer busts! You win!''
             else if playerScore > dealerScore then ''You win!''
             else ''You lost!'')"

definition getGameState :: "game \<Rightarrow> snapshot" where
  "getGameState g =
     \<lparr>view_playerHand = playerHand g,
      view_dealerHand = map (\<lambda>card. if hidden card then HiddenCard else Shown card) (dealerHand g),
      view_state = state g,
      view_currentBet = currentBet g,
      view_playerScore = calculateScore (playerHand g),
      view_dealerScore = calculateScore (filter (\<lambda>card. \<not> hidden card) (dealerHand g)),
      view_message = getMessage g,
      view_gameId = gameId g,
      view_rewardPaid = rewardPaid g,
      view_completed = completed g\<rparr>"

subsection \<open>The route \<^verbatim>\<open>POST /api/game/create\<close>\<close>

text \<open>The body of a request: \<^verbatim>\<open>playerId\<close> may be missing, \<^verbatim>\<open>entryFeePaid\<close> is read as a
  truth value.\<close>

record create_request =
  req_playerId :: "string option"
  req_entryFeePaid :: bool

text \<open>A response: the JSON of a snapshot (status 200) or a status and an error message.\<close>

datatype response = Json snapshot | Error nat string

definition create_route :: "world \<Rightarrow> create_request \<Rightarrow> server \<Rightarrow> response \<times> server" where
  "create_route w req srv =
     (case req_playerId req of
        None \<Rightarrow> (Error 400 ''Player ID is required'', srv)
      | Some pid \<Rightarrow>
          if pid = [] then (Error 400 ''Player ID is required'', srv)
          else if \<not> PublicKey_ok w pid
          then (Error 400 ''Invalid player ID format. Must be a valid Solana address.'', srv)
          else if \<not> req_entryFeePaid req
          then (Error 400 ''Entry fee must be paid before creating a game'', srv)
          else
            (case (if pid \<in> activePlayers srv then games srv pid else None) of
               Some game \<Rightarrow> (Json (getGameState game), srv)
             | None \<Rightarrow>
                 let srv1 = (if pid \<in> activePlayers srv
                             then srv\<lparr>activePlayers := activePlayers srv - {pid}\<rparr> else srv)
                 in case BlackjackGame w pid srv1 of
                      Inl e \<Rightarrow> (Error 500 ''Failed to create game'', srv1)
                    | Inr (g, srv2) \<Rightarrow>
                        (Json (getGameState g), srv2\<lparr>games := (games srv2)(pid \<mapsto> g)\<rparr>)))"

subsection \<open>The retention sweepers\<close>

definition cleanupOldCompletedGames :: "world \<Rightarrow> server \<Rightarrow> server" where
  "cleanupOldCompletedGames w srv =
     (let twentyFourHoursAgo = int (Date_now w) - 24 * 60 * 60 * 1000
      in srv\<lparr>completedGames :=
            (\<lambda>gid. case completedGames srv gid of
                      None \<Rightarrow> None
                    | Some gameData \<Rightarrow>
                        if int (timestamp gameData) < twentyFourHoursAgo then None
                        else Some gameData)\<rparr>)"

text \<open>\<^verbatim>\<open>String.prototype.split\<close> on one separator character.\<close>

fun split_string :: "char \<Rightarrow> string \<Rightarrow> string \<Rightarrow> string list" where
  "split_string sep cur [] = [cur]"
| "split_string sep cur (c # cs) =
     (if c = sep then cur # split_string sep [] cs else split_string sep (cur @ [c]) cs)"

text \<open>
  \<^verbatim>\<open>parseInt(s, 10)\<close>: white space is skipped, a sign is read, and the longest run of
  decimal digits that follows is the value; \<open>None\<close> is \<^verbatim>\<open>NaN\<close>, when no digit
  follows. The white space is the ASCII one.
\<close>

definition digit10 :: "char \<Rightarrow> nat option" where
  "digit10 c = (if c \<in> set ''0123456789'' then Some (of_char c - 48) else None)"

fun digits :: "nat option \<Rightarrow> string \<Rightarrow> nat option" where
  "digits acc [] = acc"
| "digits acc (c # cs) =
     (case digit10 c of
        None \<Rightarrow> acc
      | Some d \<Rightarrow> digits (Some (10 * (case acc of None \<Rightarrow> 0 | Some a \<Rightarrow> a) + d)) cs)"

definition parseInt :: "string \<Rightarrow> int option" where
  "parseInt s =
     (case dropWhile (\<lambda>c. c \<in> {CHR '' '', CHR 0x09, CHR 0x0A, CHR 0x0B, CHR 0x0C, CHR 0x0D}) s of
        [] \<Rightarrow> None
      | c # cs \<Rightarrow>
          if c = CHR ''-'' then map_option (\<lambda>n. - int n) (digits None cs)
          else if c = CHR ''+'' then map_option int (digits None cs)
          else map_option int (digits None (c # cs)))"

text \<open>The test of the loop of \<^verbatim>\<open>cleanupOldPaidRewards\<close> on one key.\<close>

definition paidReward_is_old :: "world \<Rightarrow> string \<Rightarrow> bool" where
  "paidReward_is_old w key =
     (let sevenDaysAgo = int (Date_now w) - 7 * 24 * 60 * 60 * 1000;
          parts = split_string CHR ''-'' [] key
      in if length parts \<ge> 2
         then (case parseInt (parts ! 1) of
                 None \<Rightarrow> False
               | Some ts \<Rightarrow> ts < sevenDaysAgo)
         else False)"

definition cleanupOldPaidRewards :: "world \<Rightarrow> server \<Rightarrow> server" where
  "cleanupOldPaidRewards w srv =
     srv\<lparr>paidRewards :=
           (\<lambda>key. case paidRewards srv key of
                     None \<Rightarrow> None
                   | Some status \<Rightarrow> if paidReward_is_old w key then None else Some status)\<rparr>"

subsection \<open>A concrete world, session and stores\<close>

text \<open>
  A world at 2026-01-01 00:00:00 UTC whose shuffle leaves the deck in the order built, and
  one whose first swap brings an Ace on top of the deck. In the second the player is dealt
  Ace, Queen and wins at once; \<open>example_game\<close> is that session, and \<open>example_server\<close>
  holds it with the ledger entry as \<^verbatim>\<open>markGameAsCompleted\<close> writes it, before the payout
  starts.
\<close>

definition example_world :: world where
  "example_world =
     \<lparr>PublicKey_ok = (\<lambda>s. s = ''8VPZGxMMcyFykMPAApeyhsNwVtrgXZYpu28Rm2iLknbq''),
      Date_now = 1767225600000,
      Math_random = (\<lambda>i. i),
      random_chars = ''AbCdEfGh12345678''\<rparr>"

definition natural_world :: world where
  "natural_world = example_world\<lparr>Math_random := (\<lambda>i. if i = 311 then 299 else i)\<rparr>"

definition example_game :: game where
  "example_game =
     \<lparr>playerId = ''8VPZGxMMcyFykMPAApeyhsNwVtrgXZYpu28Rm2iLknbq'',
      gameId = ''mjuohs00-AbCdEfGh12345678'',
      completed = True,
      deck = take 308 (createDeck natural_world),
      playerHand = [\<lparr>suit = spades, rank = Ace, hidden = False\<rparr>,
                    \<lparr>suit = spades, rank = Queen, hidden = False\<rparr>],
      dealerHand = [\<lparr>suit = spades, rank = Jack, hidden = False\<rparr>,
                    \<lparr>suit = spades, rank = N10, hidden = True\<rparr>],
      state = GAME_ENDED,
      currentBet = 3,
      rewardPaid = False,
      stateHistory = [PLAYER_TURN, GAME_ENDED]\<rparr>"

definition example_entry :: completion where
  "example_entry =
     \<lparr>entry_playerId = ''8VPZGxMMcyFykMPAApeyhsNwVtrgXZYpu28Rm2iLknbq'',
      result = win, timestamp = 1767225600000, processed = False\<rparr>"

definition example_server :: server where
  "example_server =
     \<lparr>games = [''8VPZGxMMcyFykMPAApeyhsNwVtrgXZYpu28Rm2iLknbq'' \<mapsto> example_game],
      activePlayers = {''8VPZGxMMcyFykMPAApeyhsNwVtrgXZYpu28Rm2iLknbq''},
      completedGames = [''mjuohs00-AbCdEfGh12345678'' \<mapsto> example_entry],
      paidRewards = Map.empty,
      trace = []\<rparr>"

subsection \<open>Hands that differ only in hidden cards\<close>

text \<open>
  Two cards are the same to an observer who cannot see hidden cards: both are hidden, or
  both are open and equal. Used for the confidentiality of the dealer's hole card.
\<close>

definition same_but_hidden :: "card \<Rightarrow> card \<Rightarrow> bool" where
  "same_but_hidden c c' \<longleftrightarrow> hidden c = hidden c' \<and> (\<not> hidden c \<longrightarrow> c = c')"

text \<open>
  A session in \<^verbatim>\<open>PLAYER_TURN\<close>: the player holds 18, the dealer shows a ten over a
  hidden five, and a four is on top of the deck.
\<close>

definition standing_game :: game where
  "standing_game =
     \<lparr>playerId = ''8VPZGxMMcyFykMPAApeyhsNwVtrgXZYpu28Rm2iLknbq'',
      gameId = ''mjuohs00-AbCdEfGh12345678'',
      completed = False,
      deck = replicate 16 \<lparr>suit = hearts, rank = N5, hidden = False\<rparr>
               @ [\<lparr>suit = hearts, rank = N4, hidden = False\<rparr>],
      playerHand = [\<lparr>suit = clubs, rank = N10, hidden = False\<rparr>,
                    \<lparr>suit = hearts, rank = N8, hidden = False\<rparr>],
      dealerHand = [\<lparr>suit = diamonds, rank = N10, hidden = False\<rparr>,
                    \<lparr>suit = spades, rank = N5, hidden = True\<rparr>],
      state = PLAYER_TURN,
      currentBet = 3,
      rewardPaid = False,
      stateHistory = [PLAYER_TURN]\<rparr>"

subsection \<open>The sessions the operations produce\<close>

text \<open>
  A session is made by the constructor (the create and reset routes both call it) and
  then changed by \<^verbatim>\<open>reset\<close>, \<^verbatim>\<open>hit\<close> and \<^verbatim>\<open>stand\<close> when they return, and by the
  rest of \<^verbatim>\<open>processReward\<close> when the chain has answered. An operation that throws at
  its guard leaves the session as it was.
\<close>

inductive reachable :: "game \<Rightarrow> bool" where
  created: "BlackjackGame w pid srv = Inr (g, srv') \<Longrightarrow> reachable g"
| reset: "reachable g \<Longrightarrow> reset w g srv = Inr (g', srv') \<Longrightarrow> reachable g'"
| hit: "reachable g \<Longrightarrow> hit w g srv = Inr (g', srv') \<Longrightarrow> reachable g'"
| stand: "reachable g \<Longrightarrow> stand w g srv = Inr (g', srv') \<Longrightarrow> reachable g'"
| paid: "reachable g \<Longrightarrow> processReward_resume chain k g srv = (r, g', srv') \<Longrightarrow> reachable g'"

section \<open>Properties of the score\<close>

lemma score_step_pair:
  "score_step c (s, a) =
     (if hidden c then (s, a) else (s + spec_value (rank c), if rank c = Ace then Suc a else a))"
  by (cases "rank c") (simp_all add: score_step_def)

lemma fold_score_step:
  "fold score_step hand (s, a) = (s + low_total hand + 10 * int (open_aces hand), a + open_aces hand)"
proof (induction hand arbitrary: s a)
  case Nil
  show ?case by simp
next
  case (Cons c cs)
  show ?case
    by (simp add: score_step_pair Cons.IH)
qed

lemma soften_shape:
  "\<exists>k\<le>a. soften (l + 10 * int a) a = l + 10 * int k
        \<and> (k < a \<longrightarrow> 21 < l + 10 * int (Suc k))
        \<and> (0 < k \<longrightarrow> l + 10 * int k \<le> 21)"
proof (induction a)
  case 0
  show ?case by (simp add: soften.simps)
next
  case (Suc a)
  show ?case
  proof (cases "21 < l + 10 * int (Suc a)")
    case True
    then have step: "soften (l + 10 * int (Suc a)) (Suc a) = soften (l + 10 * int a) a"
      by (subst soften.simps) simp
    from Suc obtain k where k: "k \<le> a" "soften (l + 10 * int a) a = l + 10 * int k"
      "k < a \<longrightarrow> 21 < l + 10 * int (Suc k)" "0 < k \<longrightarrow> l + 10 * int k \<le> 21"
      by blast
    show ?thesis
    proof (intro exI [of _ k] conjI)
      show "k \<le> Suc a" using k(1) by simp
      show "soften (l + 10 * int (Suc a)) (Suc a) = l + 10 * int k" using step k(2) by simp
      show "k < Suc a \<longrightarrow> 21 < l + 10 * int (Suc k)"
        using k(1,3) True by (cases "k = a") auto
      show "0 < k \<longrightarrow> l + 10 * int k \<le> 21" by (rule k(4))
    qed
  next
    case False
    then have "soften (l + 10 * int (Suc a)) (Suc a) = l + 10 * int (Suc a)"
      by (subst soften.simps) simp
    with False show ?thesis
      by (intro exI [of _ "Suc a"]) simp
  qed
qed

lemma fold_score_step_open:
  "fold score_step hand (s, a) =
     (s + sum_list (map (\<lambda>c. spec_value (rank c)) (open_cards hand)),
      a + length (filter (\<lambda>c. rank c = Ace) (open_cards hand)))"
  by (induction hand arbitrary: s a) (simp_all add: score_step_pair open_cards_def)

lemma calculateScore_low:
  "calculateScore hand = soften (low_total hand + 10 * int (open_aces hand)) (open_aces hand)"
  by (simp add: calculateScore_def fold_score_step)

lemma image_add_int_iff: "t \<in> (\<lambda>x. x + c) ` S \<longleftrightarrow> t - c \<in> S" for t c :: int
proof
  assume "t \<in> (\<lambda>x. x + c) ` S"
  then obtain x where "x \<in> S" "t = x + c" by blast
  then show "t - c \<in> S" by simp
next
  assume "t - c \<in> S"
  then have "(t - c) + c \<in> (\<lambda>x. x + c) ` S" by (rule imageI)
  then show "t \<in> (\<lambda>x. x + c) ` S" by simp
qed

lemma totals_iff:
  "t \<in> set (totals hand) \<longleftrightarrow> (\<exists>k\<le>open_aces hand. t = low_total hand + 10 * int k)"
proof (induction hand arbitrary: t)
  case Nil
  show ?case by simp
next
  case (Cons c cs)
  show ?case
  proof (cases "\<not> hidden c \<and> rank c = Ace")
    case True
    have "t \<in> set (totals (c # cs)) \<longleftrightarrow> t - 1 \<in> set (totals cs) \<or> t - 11 \<in> set (totals cs)"
      using True by (simp add: image_add_int_iff)
    also have "\<dots> \<longleftrightarrow> (\<exists>k\<le>open_aces cs. t - 1 = low_total cs + 10 * int k)
        \<or> (\<exists>k\<le>open_aces cs. t - 11 = low_total cs + 10 * int k)"
      by (simp only: Cons.IH)
    also have "\<dots> \<longleftrightarrow> (\<exists>k\<le>Suc (open_aces cs). t = 1 + low_total cs + 10 * int k)"
    proof (intro iffI)
      assume "(\<exists>k\<le>open_aces cs. t - 1 = low_total cs + 10 * int k)
        \<or> (\<exists>k\<le>open_aces cs. t - 11 = low_total cs + 10 * int k)"
      then show "\<exists>k\<le>Suc (open_aces cs). t = 1 + low_total cs + 10 * int k"
      proof
        assume "\<exists>k\<le>open_aces cs. t - 1 = low_total cs + 10 * int k"
        then obtain k where "k \<le> open_aces cs" "t - 1 = low_total cs + 10 * int k" by blast
        then show ?thesis by (intro exI [of _ k]) simp
      next
        assume "\<exists>k\<le>open_aces cs. t - 11 = low_total cs + 10 * int k"
        then obtain k where "k \<le> open_aces cs" "t - 11 = low_total cs + 10 * int k" by blast
        then show ?thesis by (intro exI [of _ "Suc k"]) simp
      qed
    next
      assume "\<exists>k\<le>Suc (open_aces cs). t = 1 + low_total cs + 10 * int k"
      then obtain k where k: "k \<le> Suc (open_aces cs)" "t = 1 + low_total cs + 10 * int k"
        by blast
      show "(\<exists>k\<le>open_aces cs. t - 1 = low_total cs + 10 * int k)
        \<or> (\<exists>k\<le>open_aces cs. t - 11 = low_total cs + 10 * int k)"
      proof (cases k)
        case 0
        with k have "t - 1 = low_total cs + 10 * int 0" by simp
        then show ?thesis by blast
      next
        case (Suc j)
        with k have "j \<le> open_aces cs" "t - 11 = low_total cs + 10 * int j" by simp_all
        then show ?thesis by blast
      qed
    qed
    finally show ?thesis using True by simp
  next
    case False
    have "t \<in> set (totals (c # cs)) \<longleftrightarrow>
        (if hidden c then t \<in> set (totals cs) else t - spec_value (rank c) \<in> set (totals cs))"
      using False by (cases "hidden c") (simp_all add: image_add_int_iff)
    also have "\<dots> \<longleftrightarrow> (\<exists>k\<le>open_aces (c # cs). t = low_total (c # cs) + 10 * int k)"
      using False by (cases "hidden c") (auto simp: Cons.IH)
    finally show ?thesis .
  qed
qed

lemma calculateScore_shape:
  obtains k where "k \<le> open_aces hand"
    "calculateScore hand = low_total hand + 10 * int k"
    "k < open_aces hand \<Longrightarrow> 21 < low_total hand + 10 * int (Suc k)"
    "0 < k \<Longrightarrow> low_total hand + 10 * int k \<le> 21"
proof -
  have "\<exists>k. k \<le> open_aces hand \<and>
     soften (low_total hand + 10 * int (open_aces hand)) (open_aces hand) = low_total hand + 10 * int k \<and>
     (k < open_aces hand \<longrightarrow> 21 < low_total hand + 10 * int (Suc k)) \<and>
     (0 < k \<longrightarrow> low_total hand + 10 * int k \<le> 21)"
    using soften_shape [of "open_aces hand" "low_total hand"] unfolding Bex_def .
  then obtain k where "k \<le> open_aces hand \<and>
     soften (low_total hand + 10 * int (open_aces hand)) (open_aces hand) = low_total hand + 10 * int k \<and>
     (k < open_aces hand \<longrightarrow> 21 < low_total hand + 10 * int (Suc k)) \<and>
     (0 < k \<longrightarrow> low_total hand + 10 * int k \<le> 21)" ..
  then show thesis
    by (intro that [of k]) (simp_all only: calculateScore_low)
qed

lemma calculateScore_totals: "calculateScore hand \<in> set (totals hand)"
proof -
  obtain k where "k \<le> open_aces hand" "calculateScore hand = low_total hand + 10 * int k"
    by (rule calculateScore_shape [of hand]) (rule that; assumption)
  then have "\<exists>k\<le>open_aces hand. calculateScore hand = low_total hand + 10 * int k"
    by (intro exI [of _ k] conjI)
  then show ?thesis by (simp only: totals_iff)
qed

lemma totals_shape:
  assumes "t \<in> set (totals hand)"
  obtains j where "j \<le> open_aces hand" "t = low_total hand + 10 * int j"
proof -
  from assms have "\<exists>j. j \<le> open_aces hand \<and> t = low_total hand + 10 * int j"
    by (simp only: totals_iff Bex_def)
  then obtain j where "j \<le> open_aces hand \<and> t = low_total hand + 10 * int j" ..
  then show thesis by (intro that [of j]) simp_all
qed

lemma calculateScore_upper:
  assumes "t \<in> set (totals hand)" "t \<le> 21"
  shows "t \<le> calculateScore hand" "calculateScore hand \<le> 21"
proof -
  obtain k where k: "k \<le> open_aces hand"
    "calculateScore hand = low_total hand + 10 * int k"
    "k < open_aces hand \<Longrightarrow> 21 < low_total hand + 10 * int (Suc k)"
    "0 < k \<Longrightarrow> low_total hand + 10 * int k \<le> 21"
    by (rule calculateScore_shape [of hand]) (rule that; assumption)
  obtain j where j: "j \<le> open_aces hand" "t = low_total hand + 10 * int j"
    using assms(1) by (rule totals_shape)
  have "j \<le> k"
  proof (rule ccontr)
    assume "\<not> j \<le> k"
    then have "Suc k \<le> j" by simp
    then have "low_total hand + 10 * int (Suc k) \<le> t" using j(2) by simp
    moreover have "k < open_aces hand" using \<open>Suc k \<le> j\<close> j(1) by simp
    ultimately show False using k(3) assms(2) by simp
  qed
  then show "t \<le> calculateScore hand" using j(2) k(2) by simp
  show "calculateScore hand \<le> 21"
  proof (cases "0 < k")
    case True
    then show ?thesis using k(2,4) by simp
  next
    case False
    then have "calculateScore hand \<le> t" using j(2) k(2) by simp
    then show ?thesis using assms(2) by simp
  qed
qed

lemma calculateScore_bust:
  assumes "\<forall>t\<in>set (totals hand). 21 < t" "t \<in> set (totals hand)"
  shows "calculateScore hand \<le> t"
proof -
  obtain k where k: "k \<le> open_aces hand"
    "calculateScore hand = low_total hand + 10 * int k"
    "0 < k \<Longrightarrow> low_total hand + 10 * int k \<le> 21"
    by (rule calculateScore_shape [of hand]) (rule that; assumption)
  have "calculateScore hand \<in> set (totals hand)" by (rule calculateScore_totals)
  then have "21 < calculateScore hand" by (rule bspec [OF assms(1)])
  then have "k = 0" using k(2,3) by (cases "0 < k") simp_all
  moreover obtain j where "t = low_total hand + 10 * int j"
    using assms(2) by (rule totals_shape)
  ultimately show ?thesis using k(2) by simp
qed
text \<open>
  C7 (as amended). \<open>calculateScore\<close> adds the rank values (Ace 11, J/Q/K 10, numerals
  their face value) of the cards that are not hidden and then runs the softening loop on
  that sum and the number of Aces counted. The result is one of the totals the hand can be
  counted as. When some total is at most 21 the result is at most 21 and is the greatest
  such total (not the least); when every total is above 21 the result is the least total.
  The function is a pure function of the hand.
\<close>

theorem calculateScore_best:
  "calculateScore hand =
     soften (sum_list (map (\<lambda>c. spec_value (rank c)) (open_cards hand)))
            (length (filter (\<lambda>c. rank c = Ace) (open_cards hand)))
   \<and> calculateScore hand \<in> set (totals hand)
   \<and> ((\<exists>t\<in>set (totals hand). t \<le> 21) \<longrightarrow>
        calculateScore hand \<le> 21 \<and> (\<forall>t\<in>set (totals hand). t \<le> 21 \<longrightarrow> t \<le> calculateScore hand))
   \<and> ((\<forall>t\<in>set (totals hand). 21 < t) \<longrightarrow>
        (\<forall>t\<in>set (totals hand). calculateScore hand \<le> t))"
proof (intro conjI impI ballI)
  show "calculateScore hand =
     soften (sum_list (map (\<lambda>c. spec_value (rank c)) (open_cards hand)))
            (length (filter (\<lambda>c. rank c = Ace) (open_cards hand)))"
    by (simp add: calculateScore_def fold_score_step_open)
  show "calculateScore hand \<in> set (totals hand)" by (rule calculateScore_totals)
next
  assume "\<exists>t\<in>set (totals hand). t \<le> 21"
  then obtain t where "t \<in> set (totals hand)" "t \<le> 21" ..
  then show "calculateScore hand \<le> 21" by (rule calculateScore_upper(2))
next
  fix t assume "t \<in> set (totals hand)" "t \<le> 21"
  then show "t \<le> calculateScore hand" by (rule calculateScore_upper(1))
next
  fix t assume "\<forall>t\<in>set (totals hand). 21 < t" "t \<in> set (totals hand)"
  then show "calculateScore hand \<le> t" by (rule calculateScore_bust)
qed

theorem calculateScore_best_witness:
  "6 \<in> set (totals [\<lparr>suit = spades, rank = Ace, hidden = False\<rparr>,
                      \<lparr>suit = hearts, rank = N5, hidden = False\<rparr>])
   \<and> calculateScore [\<lparr>suit = spades, rank = Ace, hidden = False\<rparr>,
                     \<lparr>suit = hearts, rank = N5, hidden = False\<rparr>] \<le> 21
   \<and> 6 \<le> calculateScore [\<lparr>suit = spades, rank = Ace, hidden = False\<rparr>,
                         \<lparr>suit = hearts, rank = N5, hidden = False\<rparr>]
   \<and> 24 \<in> set (totals [\<lparr>suit = clubs, rank = King, hidden = False\<rparr>,
                       \<lparr>suit = hearts, rank = N5, hidden = False\<rparr>,
                       \<lparr>suit = hearts, rank = N9, hidden = False\<rparr>])
   \<and> calculateScore [\<lparr>suit = clubs, rank = King, hidden = False\<rparr>,
                     \<lparr>suit = hearts, rank = N5, hidden = False\<rparr>,
                     \<lparr>suit = hearts, rank = N9, hidden = False\<rparr>] \<le> 24"
proof -
  have a: "6 \<in> set (totals [\<lparr>suit = spades, rank = Ace, hidden = False\<rparr>,
                        \<lparr>suit = hearts, rank = N5, hidden = False\<rparr>])" "(6::int) \<le> 21"
    by simp_all
  have b: "\<forall>t\<in>set (totals [\<lparr>suit = clubs, rank = King, hidden = False\<rparr>,
                        \<lparr>suit = hearts, rank = N5, hidden = False\<rparr>,
                        \<lparr>suit = hearts, rank = N9, hidden = False\<rparr>]). 21 < t"
    "24 \<in> set (totals [\<lparr>suit = clubs, rank = King, hidden = False\<rparr>,
                        \<lparr>suit = hearts, rank = N5, hidden = False\<rparr>,
                        \<lparr>suit = hearts, rank = N9, hidden = False\<rparr>])"
    by simp_all
  show ?thesis
    using a b
      calculateScore_best [of "[\<lparr>suit = spades, rank = Ace, hidden = False\<rparr>,
                        \<lparr>suit = hearts, rank = N5, hidden = False\<rparr>]"]
      calculateScore_best [of "[\<lparr>suit = clubs, rank = King, hidden = False\<rparr>,
                        \<lparr>suit = hearts, rank = N5, hidden = False\<rparr>,
                        \<lparr>suit = hearts, rank = N9, hidden = False\<rparr>]"]
    by blast
qed

text \<open>
  C7 (as stated) fails: the hand Ace, 5 can be counted as 6 or as 16, both at most 21;
  \<open>calculateScore\<close> returns 16, which is not the least of them.
\<close>

theorem calculateScore_not_minimal:
  "calculateScore [\<lparr>suit = spades, rank = Ace, hidden = False\<rparr>,
                   \<lparr>suit = hearts, rank = N5, hidden = False\<rparr>] = 16
   \<and> 6 \<in> set (totals [\<lparr>suit = spades, rank = Ace, hidden = False\<rparr>,
                        \<lparr>suit = hearts, rank = N5, hidden = False\<rparr>])
   \<and> (6::int) \<le> 21 \<and> (6::int) < 16"
  by (simp add: calculateScore_def score_step_def soften.simps)

section \<open>Properties of the payout\<close>

lemma calls_of_append: "calls_of (xs @ ys) = calls_of xs @ calls_of ys"
  by (induction xs rule: calls_of.induct) simp_all

lemma calls_of_map_ChainCall: "calls_of (map ChainCall cs) = cs"
  by (induction cs) simp_all

lemma sendCardsReward_cases:
  "sendCardsReward w chain addr gid srv =
     (if \<not> PublicKey_ok w addr then (Inl InvalidSolanaAddress, srv)
      else if paidRewards srv (transactionKey addr gid) \<noteq> None then (Inr None, srv)
      else sendCardsReward_resume chain addr gid (paidRewards_set (transactionKey addr gid) Pending srv))"
  by (simp add: sendCardsReward_def sendCardsReward_start_def Let_def)

lemma sendCardsReward_resume_paid:
  "paidRewards (snd (sendCardsReward_resume chain addr gid srv)) (transactionKey addr gid) =
     Some (case chain of SendOk s \<Rightarrow> Completed | _ \<Rightarrow> Failed)"
  by (cases chain) (simp_all add: sendCardsReward_resume_def paidRewards_set_def Let_def)

lemma sendCardsReward_leaves_record:
  "PublicKey_ok w addr \<Longrightarrow>
     paidRewards (snd (sendCardsReward w chain addr gid srv)) (transactionKey addr gid) \<noteq> None"
  by (simp add: sendCardsReward_cases sendCardsReward_resume_paid)

lemma sendCardsReward_known_key:
  "paidRewards srv (transactionKey addr gid) \<noteq> None \<Longrightarrow>
     sendCardsReward w chain addr gid srv =
       (if PublicKey_ok w addr then Inr None else Inl InvalidSolanaAddress, srv)"
  by (simp add: sendCardsReward_cases)

lemma sendCardsReward_start_twice:
  "fst (sendCardsReward_start w addr gid (snd (sendCardsReward_start w addr gid srv)))
     \<noteq> SendAwaitsChain"
  by (auto simp: sendCardsReward_start_def paidRewards_set_def Let_def)

lemma sendCardsReward_twice:
  "calls_of (trace (snd (sendCardsReward w chain2 addr gid (snd (sendCardsReward w chain1 addr gid srv))))) =
   calls_of (trace (snd (sendCardsReward w chain1 addr gid srv)))"
proof (cases "PublicKey_ok w addr")
  case True
  then have "paidRewards (snd (sendCardsReward w chain1 addr gid srv)) (transactionKey addr gid) \<noteq> None"
    by (rule sendCardsReward_leaves_record)
  then show ?thesis by (simp add: sendCardsReward_known_key)
next
  case False
  then show ?thesis by (simp add: sendCardsReward_cases)
qed


lemma processReward_cases:
  "processReward w chain g srv =
     (case completedGames srv (gameId g) of
        None \<Rightarrow> (Inr (), g, srv)
      | Some gc \<Rightarrow>
          if processed gc then (Inr (), g, srv)
          else
            let gc1 = gc\<lparr>processed := True\<rparr>;
                srv1 = completedGames_set (gameId g) gc1 srv
            in case sendCardsReward w chain (playerId g) (gameId g) srv1 of
                 (Inl e, srv2) \<Rightarrow> processReward_catch e gc1 g srv2
               | (Inr signature, srv2) \<Rightarrow> (Inr (), g\<lparr>rewardPaid := True\<rparr>, srv2))"
  by (simp add: processReward_def processReward_start_def processReward_resume_def
      sendCardsReward_def Let_def split: option.split prod.split send_start.split sum.split)

lemma paidRewards_completedGames_set [simp]:
  "paidRewards (completedGames_set gid e srv) = paidRewards srv"
  "completedGames (completedGames_set gid e srv) = (completedGames srv)(gid \<mapsto> e)"
  "trace (completedGames_set gid e srv) = trace srv @ [CompletedGamesSet gid e]"
  "games (completedGames_set gid e srv) = games srv"
  "activePlayers (completedGames_set gid e srv) = activePlayers srv"
  by (simp_all add: completedGames_set_def)

lemma paidRewards_set_simps [simp]:
  "paidRewards (paidRewards_set key st srv) = (paidRewards srv)(key \<mapsto> st)"
  "completedGames (paidRewards_set key st srv) = completedGames srv"
  "trace (paidRewards_set key st srv) = trace srv @ [PaidRewardsSet key st]"
  "games (paidRewards_set key st srv) = games srv"
  "activePlayers (paidRewards_set key st srv) = activePlayers srv"
  by (simp_all add: paidRewards_set_def)

lemma sendCardsReward_resume_simps:
  "trace (snd (sendCardsReward_resume chain addr gid srv)) =
     trace srv @ map ChainCall (chain_calls chain addr)
       @ [PaidRewardsSet (transactionKey addr gid) (case chain of SendOk s \<Rightarrow> Completed | _ \<Rightarrow> Failed)]"
  "completedGames (snd (sendCardsReward_resume chain addr gid srv)) = completedGames srv"
  "(\<exists>e. fst (sendCardsReward_resume chain addr gid srv) = Inl e) \<longleftrightarrow> (\<forall>s. chain \<noteq> SendOk s)"
  by (cases chain; simp add: sendCardsReward_resume_def Let_def)+

lemma processReward_first:
  assumes "completedGames srv (gameId g) = Some gc" "\<not> processed gc"
    "paidRewards srv (transactionKey (playerId g) (gameId g)) = None" "PublicKey_ok w (playerId g)"
  shows "processReward w chain g srv =
     (case sendCardsReward_resume chain (playerId g) (gameId g)
             (paidRewards_set (transactionKey (playerId g) (gameId g)) Pending
                (completedGames_set (gameId g) (gc\<lparr>processed := True\<rparr>) srv)) of
        (Inl e, srv2) \<Rightarrow> processReward_catch e (gc\<lparr>processed := True\<rparr>) g srv2
      | (Inr signature, srv2) \<Rightarrow> (Inr (), g\<lparr>rewardPaid := True\<rparr>, srv2))"
  using assms by (simp add: processReward_cases sendCardsReward_cases Let_def)

lemma processReward_known_key:
  assumes "paidRewards srv (transactionKey (playerId g) (gameId g)) \<noteq> None"
  shows "calls_of (trace (snd (snd (processReward w chain g srv)))) = calls_of (trace srv)"
  using assms
  by (simp add: processReward_cases sendCardsReward_known_key processReward_catch_def Let_def
      calls_of_append split: option.split)


lemmas example_defs = example_world_def example_game_def example_entry_def example_server_def

text \<open>
  C1. When \<^verbatim>\<open>paidRewards\<close> already holds a record for the key of a player and a
  session, whatever its status, \<^verbatim>\<open>sendCardsReward\<close> for that key returns \<^verbatim>\<open>null\<close>
  (or rejects the address) and leaves the stores and the list of events as they were, and
  \<^verbatim>\<open>processReward\<close> for that session makes no call to the chain. Hence of two
  invocations of \<^verbatim>\<open>sendCardsReward\<close> for one key, the second makes no call to the
  chain, whatever the chain answered to the first; and when the second starts while the
  first still waits for the chain, it does not go on to the chain either.
\<close>

theorem dedup_record_blocks_transfer:
  assumes "paidRewards srv (transactionKey addr gid) \<noteq> None"
  shows "sendCardsReward w chain addr gid srv =
           (if PublicKey_ok w addr then Inr None else Inl InvalidSolanaAddress, srv)
       \<and> calls_of (trace (snd (snd (processReward w chain (g\<lparr>playerId := addr, gameId := gid\<rparr>) srv))))
           = calls_of (trace srv)
       \<and> calls_of (trace (snd (sendCardsReward w chain2 addr gid
                                (snd (sendCardsReward w chain1 addr gid srv0)))))
           = calls_of (trace (snd (sendCardsReward w chain1 addr gid srv0)))
       \<and> fst (sendCardsReward_start w addr gid (snd (sendCardsReward_start w addr gid srv0)))
           \<noteq> SendAwaitsChain"
proof (intro conjI)
  show "sendCardsReward w chain addr gid srv =
      (if PublicKey_ok w addr then Inr None else Inl InvalidSolanaAddress, srv)"
    using assms by (rule sendCardsReward_known_key)
  show "calls_of (trace (snd (snd (processReward w chain (g\<lparr>playerId := addr, gameId := gid\<rparr>) srv))))
      = calls_of (trace srv)"
    using assms by (intro processReward_known_key) simp
  show "calls_of (trace (snd (sendCardsReward w chain2 addr gid
                                (snd (sendCardsReward w chain1 addr gid srv0)))))
           = calls_of (trace (snd (sendCardsReward w chain1 addr gid srv0)))"
    by (rule sendCardsReward_twice)
  show "fst (sendCardsReward_start w addr gid (snd (sendCardsReward_start w addr gid srv0)))
      \<noteq> SendAwaitsChain"
    by (rule sendCardsReward_start_twice)
qed

theorem dedup_record_blocks_transfer_witness:
  "paidRewards (example_server\<lparr>paidRewards := [transactionKey (playerId example_game) (gameId example_game) \<mapsto> Failed]\<rparr>)
      (transactionKey (playerId example_game) (gameId example_game)) \<noteq> None
   \<and> sendCardsReward example_world (SendOk ''sig'') (playerId example_game) (gameId example_game)
        (example_server\<lparr>paidRewards := [transactionKey (playerId example_game) (gameId example_game) \<mapsto> Failed]\<rparr>)
      = (Inr None, example_server\<lparr>paidRewards := [transactionKey (playerId example_game) (gameId example_game) \<mapsto> Failed]\<rparr>)
   \<and> calls_of (trace (snd (sendCardsReward example_world (SendOk ''sig2'') (playerId example_game) (gameId example_game)
                                (snd (sendCardsReward example_world (SendOk ''sig1'') (playerId example_game) (gameId example_game) example_server)))))
      = [GetAssociatedTokenAddress, GetAssociatedTokenAddress, GetAccountInfo, GetRecentBlockhash,
         SendRawTransaction (playerId example_game) 5000000000]"
proof -
  let ?srv = "example_server\<lparr>paidRewards := [transactionKey (playerId example_game) (gameId example_game) \<mapsto> Failed]\<rparr>"
  have h: "paidRewards ?srv (transactionKey (playerId example_game) (gameId example_game)) \<noteq> None"
    by simp
  have ok: "PublicKey_ok example_world (playerId example_game)"
    by (simp add: example_defs)
  have first: "calls_of (trace (snd (sendCardsReward example_world (SendOk ''sig1'') (playerId example_game) (gameId example_game) example_server)))
      = [GetAssociatedTokenAddress, GetAssociatedTokenAddress, GetAccountInfo, GetRecentBlockhash,
         SendRawTransaction (playerId example_game) 5000000000]"
    by (simp add: sendCardsReward_cases ok sendCardsReward_resume_simps calls_of_append
        calls_of_map_ChainCall REWARD_AMOUNT_def) (simp add: example_defs)
  from dedup_record_blocks_transfer [OF h, of example_world "SendOk ''sig''" example_game
      "SendOk ''sig2''" "SendOk ''sig1''" example_server] h ok first
  show ?thesis by simp
qed

lemma processReward_first_trace:
  assumes "completedGames srv (gameId g) = Some gc" "\<not> processed gc"
    "paidRewards srv (transactionKey (playerId g) (gameId g)) = None" "PublicKey_ok w (playerId g)"
  shows "trace (snd (snd (processReward w chain g srv))) =
     trace srv
       @ [CompletedGamesSet (gameId g) (gc\<lparr>processed := True\<rparr>),
          PaidRewardsSet (transactionKey (playerId g) (gameId g)) Pending]
       @ map ChainCall (chain_calls chain (playerId g))
       @ (case chain of
            SendOk s \<Rightarrow> [PaidRewardsSet (transactionKey (playerId g) (gameId g)) Completed]
          | _ \<Rightarrow> [PaidRewardsSet (transactionKey (playerId g) (gameId g)) Failed,
                  CompletedGamesSet (gameId g) (gc\<lparr>processed := False\<rparr>)])"
  unfolding processReward_first [OF assms]
  by (cases chain) (simp_all add: sendCardsReward_resume_def processReward_catch_def Let_def)

lemma processReward_start_first:
  assumes "completedGames srv (gameId g) = Some gc" "\<not> processed gc"
    "paidRewards srv (transactionKey (playerId g) (gameId g)) = None" "PublicKey_ok w (playerId g)"
  shows "processReward_start w g srv =
     (Some (gc\<lparr>processed := True\<rparr>, SendAwaitsChain),
      paidRewards_set (transactionKey (playerId g) (gameId g)) Pending
        (completedGames_set (gameId g) (gc\<lparr>processed := True\<rparr>) srv))"
  using assms by (simp add: processReward_start_def sendCardsReward_start_def Let_def)

lemma processReward_resume_failure:
  assumes "\<forall>s. chain \<noteq> SendOk s"
  shows "\<exists>e. processReward_resume chain (gc1, SendAwaitsChain) g srv1 =
       (Inl e, g,
        completedGames_set (gameId g) (gc1\<lparr>processed := False\<rparr>)
          (snd (sendCardsReward_resume chain (playerId g) (gameId g) srv1)))"
  using assms
  by (cases chain)
    (simp_all add: processReward_resume_def sendCardsReward_resume_def processReward_catch_def Let_def)

text \<open>
  C2. When the chain fails a first payout (any answer but a signature): up to its wait
  \<^verbatim>\<open>processReward\<close> has written the ledger entry with \<^verbatim>\<open>processed = true\<close> and the
  record with status pending; the rest of it, run from that state, throws, writes the
  record with status failed and writes the ledger entry with \<^verbatim>\<open>processed = false\<close>
  (the last two events). Nothing retries: a later \<^verbatim>\<open>sendCardsReward\<close> or
  \<^verbatim>\<open>processReward\<close> for the key makes no call to the chain and leaves the record
  failed, and \<^verbatim>\<open>markGameAsCompleted\<close>, the only caller of \<^verbatim>\<open>processReward\<close>, does
  nothing on a completed session.
\<close>

theorem failed_payout_is_terminal:
  assumes "completedGames srv (gameId g) = Some gc" "\<not> processed gc"
    "paidRewards srv (transactionKey (playerId g) (gameId g)) = None" "PublicKey_ok w (playerId g)"
    "\<forall>s. chain \<noteq> SendOk s"
  shows "\<exists>e srv1 srv'.
       processReward_start w g srv = (Some (gc\<lparr>processed := True\<rparr>, SendAwaitsChain), srv1)
     \<and> completedGames srv1 (gameId g) = Some (gc\<lparr>processed := True\<rparr>)
     \<and> paidRewards srv1 (transactionKey (playerId g) (gameId g)) = Some Pending
     \<and> processReward_resume chain (gc\<lparr>processed := True\<rparr>, SendAwaitsChain) g srv1 = (Inl e, g, srv')
     \<and> processReward w chain g srv = (Inl e, g, srv')
     \<and> paidRewards srv' (transactionKey (playerId g) (gameId g)) = Some Failed
     \<and> completedGames srv' (gameId g) = Some (gc\<lparr>processed := False\<rparr>)
     \<and> trace srv' =
          trace srv
            @ [CompletedGamesSet (gameId g) (gc\<lparr>processed := True\<rparr>),
               PaidRewardsSet (transactionKey (playerId g) (gameId g)) Pending]
            @ map ChainCall (chain_calls chain (playerId g))
            @ [PaidRewardsSet (transactionKey (playerId g) (gameId g)) Failed,
               CompletedGamesSet (gameId g) (gc\<lparr>processed := False\<rparr>)]
     \<and> sendCardsReward w chain2 (playerId g) (gameId g) srv' = (Inr None, srv')
     \<and> calls_of (trace (snd (snd (processReward w chain2 g srv')))) = calls_of (trace srv')
     \<and> paidRewards (snd (snd (processReward w chain2 g srv'))) (transactionKey (playerId g) (gameId g))
          = Some Failed
     \<and> (completed g \<longrightarrow> markGameAsCompleted w playerWon g srv' = (g, srv'))"
proof -
  let ?key = "transactionKey (playerId g) (gameId g)"
  define srv1 where "srv1 = paidRewards_set ?key Pending
        (completedGames_set (gameId g) (gc\<lparr>processed := True\<rparr>) srv)"
  define srv' where "srv' = completedGames_set (gameId g) (gc\<lparr>processed := False\<rparr>)
          (snd (sendCardsReward_resume chain (playerId g) (gameId g) srv1))"
  have st: "processReward_start w g srv = (Some (gc\<lparr>processed := True\<rparr>, SendAwaitsChain), srv1)"
    unfolding srv1_def using assms(1-4) by (rule processReward_start_first)
  have m1: "completedGames srv1 (gameId g) = Some (gc\<lparr>processed := True\<rparr>)"
    and m2: "paidRewards srv1 ?key = Some Pending"
    by (simp_all add: srv1_def)
  obtain e where rs: "processReward_resume chain (gc\<lparr>processed := True\<rparr>, SendAwaitsChain) g srv1
      = (Inl e, g, srv')"
    using processReward_resume_failure [OF assms(5), of "gc\<lparr>processed := True\<rparr>" g srv1]
    unfolding srv'_def by auto
  have pr: "processReward w chain g srv = (Inl e, g, srv')"
    by (simp add: processReward_def st rs)
  have failed: "(case chain of SendOk s \<Rightarrow> Completed | _ \<Rightarrow> Failed) = Failed"
    using assms(5) by (cases chain) simp_all
  have f1: "paidRewards srv' ?key = Some Failed"
    by (simp add: srv'_def sendCardsReward_resume_paid failed)
  have f2: "completedGames srv' (gameId g) = Some (gc\<lparr>processed := False\<rparr>)"
    by (simp add: srv'_def)
  have tr: "trace srv' =
          trace srv
            @ [CompletedGamesSet (gameId g) (gc\<lparr>processed := True\<rparr>),
               PaidRewardsSet ?key Pending]
            @ map ChainCall (chain_calls chain (playerId g))
            @ [PaidRewardsSet ?key Failed,
               CompletedGamesSet (gameId g) (gc\<lparr>processed := False\<rparr>)]"
    by (simp add: srv'_def sendCardsReward_resume_simps(1) failed srv1_def)
  from f1 have known: "paidRewards srv' ?key \<noteq> None" by simp
  have a: "sendCardsReward w chain2 (playerId g) (gameId g) srv' = (Inr None, srv')"
    using sendCardsReward_known_key [OF known] assms(4) by simp
  have b: "calls_of (trace (snd (snd (processReward w chain2 g srv')))) = calls_of (trace srv')"
    using known by (rule processReward_known_key)
  have c: "paidRewards (snd (snd (processReward w chain2 g srv'))) ?key = Some Failed"
    using f1 f2 assms(4)
    by (simp add: processReward_cases sendCardsReward_cases Let_def)
  have d: "completed g \<longrightarrow> markGameAsCompleted w playerWon g srv' = (g, srv')"
    by (simp add: markGameAsCompleted_def)
  show ?thesis
    using st m1 m2 rs pr f1 f2 tr a b c d
    by (intro exI [of _ e] exI [of _ srv1] exI [of _ srv'] conjI)
qed

theorem failed_payout_is_terminal_witness:
  "completedGames example_server (gameId example_game) = Some example_entry
   \<and> \<not> processed example_entry
   \<and> paidRewards example_server (transactionKey (playerId example_game) (gameId example_game)) = None
   \<and> PublicKey_ok example_world (playerId example_game)
   \<and> (\<exists>e srv1 srv'.
       processReward_start example_world example_game example_server
         = (Some (example_entry\<lparr>processed := True\<rparr>, SendAwaitsChain), srv1)
     \<and> completedGames srv1 (gameId example_game) = Some (example_entry\<lparr>processed := True\<rparr>)
     \<and> paidRewards srv1 (transactionKey (playerId example_game) (gameId example_game)) = Some Pending
     \<and> processReward_resume SendFails (example_entry\<lparr>processed := True\<rparr>, SendAwaitsChain)
           example_game srv1 = (Inl e, example_game, srv')
     \<and> processReward example_world SendFails example_game example_server = (Inl e, example_game, srv')
     \<and> paidRewards srv' (transactionKey (playerId example_game) (gameId example_game)) = Some Failed
     \<and> completedGames srv' (gameId example_game) = Some (example_entry\<lparr>processed := False\<rparr>)
     \<and> trace srv' =
          [CompletedGamesSet (gameId example_game) (example_entry\<lparr>processed := True\<rparr>),
           PaidRewardsSet (transactionKey (playerId example_game) (gameId example_game)) Pending,
           ChainCall GetAssociatedTokenAddress, ChainCall GetAssociatedTokenAddress,
           ChainCall GetAccountInfo, ChainCall GetRecentBlockhash,
           ChainCall (SendRawTransaction (playerId example_game) 5000000000),
           PaidRewardsSet (transactionKey (playerId example_game) (gameId example_game)) Failed,
           CompletedGamesSet (gameId example_game) (example_entry\<lparr>processed := False\<rparr>)]
     \<and> sendCardsReward example_world (SendOk ''sig'') (playerId example_game) (gameId example_game) srv' = (Inr None, srv')
     \<and> calls_of (trace (snd (snd (processReward example_world (SendOk ''sig'') example_game srv')))) = calls_of (trace srv')
     \<and> markGameAsCompleted example_world True example_game srv' = (example_game, srv'))"
proof -
  have h: "completedGames example_server (gameId example_game) = Some example_entry"
    "\<not> processed example_entry"
    "paidRewards example_server (transactionKey (playerId example_game) (gameId example_game)) = None"
    "PublicKey_ok example_world (playerId example_game)"
    "\<forall>s. SendFails \<noteq> SendOk s"
    by (simp_all add: example_defs)
  have c: "completed example_game" by (simp add: example_defs)
  have t: "trace example_server = []" by (simp add: example_defs)
  from failed_payout_is_terminal [OF h, of "SendOk ''sig''" True]
  obtain e srv1 srv' where r:
    "processReward_start example_world example_game example_server
         = (Some (example_entry\<lparr>processed := True\<rparr>, SendAwaitsChain), srv1)"
    "completedGames srv1 (gameId example_game) = Some (example_entry\<lparr>processed := True\<rparr>)"
    "paidRewards srv1 (transactionKey (playerId example_game) (gameId example_game)) = Some Pending"
    "processReward_resume SendFails (example_entry\<lparr>processed := True\<rparr>, SendAwaitsChain)
           example_game srv1 = (Inl e, example_game, srv')"
    "processReward example_world SendFails example_game example_server = (Inl e, example_game, srv')"
    "paidRewards srv' (transactionKey (playerId example_game) (gameId example_game)) = Some Failed"
    "completedGames srv' (gameId example_game) = Some (example_entry\<lparr>processed := False\<rparr>)"
    "trace srv' =
          trace example_server
            @ [CompletedGamesSet (gameId example_game) (example_entry\<lparr>processed := True\<rparr>),
               PaidRewardsSet (transactionKey (playerId example_game) (gameId example_game)) Pending]
            @ map ChainCall (chain_calls SendFails (playerId example_game))
            @ [PaidRewardsSet (transactionKey (playerId example_game) (gameId example_game)) Failed,
               CompletedGamesSet (gameId example_game) (example_entry\<lparr>processed := False\<rparr>)]"
    "sendCardsReward example_world (SendOk ''sig'') (playerId example_game) (gameId example_game) srv' = (Inr None, srv')"
    "calls_of (trace (snd (snd (processReward example_world (SendOk ''sig'') example_game srv')))) = calls_of (trace srv')"
    "completed example_game \<longrightarrow> markGameAsCompleted example_world True example_game srv' = (example_game, srv')"
    by (elim exE conjE)
  have tr: "trace srv' =
          [CompletedGamesSet (gameId example_game) (example_entry\<lparr>processed := True\<rparr>),
           PaidRewardsSet (transactionKey (playerId example_game) (gameId example_game)) Pending,
           ChainCall GetAssociatedTokenAddress, ChainCall GetAssociatedTokenAddress,
           ChainCall GetAccountInfo, ChainCall GetRecentBlockhash,
           ChainCall (SendRawTransaction (playerId example_game) 5000000000),
           PaidRewardsSet (transactionKey (playerId example_game) (gameId example_game)) Failed,
           CompletedGamesSet (gameId example_game) (example_entry\<lparr>processed := False\<rparr>)]"
    unfolding r(8) t by (simp add: REWARD_AMOUNT_def)
  from r(11) c have mk: "markGameAsCompleted example_world True example_game srv' = (example_game, srv')"
    by simp
  show ?thesis
    using h(1-4) r(1-7) tr r(9,10) mk
    by (intro conjI exI [of _ e] exI [of _ srv1] exI [of _ srv'])
qed

text \<open>
  C3 (as amended). On the first payout for a winning session (the ledger entry is there
  and not processed, no record for the key, the address valid) \<^verbatim>\<open>processReward\<close> first
  writes the ledger entry with \<^verbatim>\<open>processed = true\<close>, then \<^verbatim>\<open>sendCardsReward\<close>
  inserts the record with status pending, and only then the chain is called; the status
  of the record (and, on failure, the ledger entry) is written last.
\<close>

theorem first_payout_order:
  assumes "completedGames srv (gameId g) = Some gc" "\<not> processed gc"
    "paidRewards srv (transactionKey (playerId g) (gameId g)) = None" "PublicKey_ok w (playerId g)"
  shows "trace (snd (snd (processReward w chain g srv))) =
     trace srv
       @ [CompletedGamesSet (gameId g) (gc\<lparr>processed := True\<rparr>),
          PaidRewardsSet (transactionKey (playerId g) (gameId g)) Pending]
       @ map ChainCall (chain_calls chain (playerId g))
       @ (case chain of
            SendOk s \<Rightarrow> [PaidRewardsSet (transactionKey (playerId g) (gameId g)) Completed]
          | _ \<Rightarrow> [PaidRewardsSet (transactionKey (playerId g) (gameId g)) Failed,
                  CompletedGamesSet (gameId g) (gc\<lparr>processed := False\<rparr>)])"
  using assms by (rule processReward_first_trace)

theorem first_payout_order_witness:
  "completedGames example_server (gameId example_game) = Some example_entry
   \<and> \<not> processed example_entry
   \<and> paidRewards example_server (transactionKey (playerId example_game) (gameId example_game)) = None
   \<and> PublicKey_ok example_world (playerId example_game)
   \<and> trace (snd (snd (processReward example_world AccountMissing example_game example_server))) =
       [CompletedGamesSet (gameId example_game) (example_entry\<lparr>processed := True\<rparr>),
        PaidRewardsSet (transactionKey (playerId example_game) (gameId example_game)) Pending,
        ChainCall GetAssociatedTokenAddress, ChainCall GetAssociatedTokenAddress,
        ChainCall GetAccountInfo,
        PaidRewardsSet (transactionKey (playerId example_game) (gameId example_game)) Failed,
        CompletedGamesSet (gameId example_game) (example_entry\<lparr>processed := False\<rparr>)]"
proof -
  have h: "completedGames example_server (gameId example_game) = Some example_entry"
    "\<not> processed example_entry"
    "paidRewards example_server (transactionKey (playerId example_game) (gameId example_game)) = None"
    "PublicKey_ok example_world (playerId example_game)"
    by (simp_all add: example_defs)
  have t: "trace example_server = []" by (simp add: example_defs)
  from first_payout_order [OF h, of AccountMissing] h t
  show ?thesis by simp
qed

text \<open>
  C3 (as stated) fails: in the run of \<^verbatim>\<open>processReward\<close> for the example session the
  write of \<^verbatim>\<open>processed = true\<close> is the first event and the insertion of the pending
  record the second.
\<close>

theorem pending_not_before_processed:
  "trace (snd (snd (processReward example_world (SendOk ''sig'') example_game example_server))) =
     [CompletedGamesSet ''mjuohs00-AbCdEfGh12345678''
        \<lparr>entry_playerId = ''8VPZGxMMcyFykMPAApeyhsNwVtrgXZYpu28Rm2iLknbq'',
         result = win, timestamp = 1767225600000, processed = True\<rparr>,
      PaidRewardsSet ''8VPZGxMMcyFykMPAApeyhsNwVtrgXZYpu28Rm2iLknbq-mjuohs00-AbCdEfGh12345678'' Pending,
      ChainCall GetAssociatedTokenAddress, ChainCall GetAssociatedTokenAddress,
      ChainCall GetAccountInfo, ChainCall GetRecentBlockhash,
      ChainCall (SendRawTransaction ''8VPZGxMMcyFykMPAApeyhsNwVtrgXZYpu28Rm2iLknbq'' 5000000000),
      PaidRewardsSet ''8VPZGxMMcyFykMPAApeyhsNwVtrgXZYpu28Rm2iLknbq-mjuohs00-AbCdEfGh12345678'' Completed]"
proof -
  have h: "completedGames example_server (gameId example_game) = Some example_entry"
    "\<not> processed example_entry"
    "paidRewards example_server (transactionKey (playerId example_game) (gameId example_game)) = None"
    "PublicKey_ok example_world (playerId example_game)"
    by (simp_all add: example_defs)
  show ?thesis
    unfolding processReward_first_trace [OF h]
    by (simp add: example_defs transactionKey_def REWARD_AMOUNT_def)
qed

section \<open>Properties of the deck and of a finished session\<close>

lemma length_shuffle: "length (shuffle r i d) = length d"
  by (induction i arbitrary: d) (simp_all add: Let_def)

lemma mset_shuffle: "i < length d \<Longrightarrow> mset (shuffle r i d) = mset d"
proof (induction i arbitrary: d)
  case 0
  show ?case by simp
next
  case (Suc i)
  let ?j = "r (Suc i) mod (Suc i + 1)"
  have j: "?j < length d" using Suc.prems by (simp add: less_le_trans [OF mod_less_divisor])
  have swap: "mset (d[Suc i := d ! ?j, ?j := d ! Suc i]) = mset d"
    using j Suc.prems by (rule mset_swap)
  have "mset (shuffle r i (d[Suc i := d ! ?j, ?j := d ! Suc i])) = mset (d[Suc i := d ! ?j, ?j := d ! Suc i])"
    using Suc.prems by (intro Suc.IH) simp
  then show ?case using swap by (simp add: Let_def)
qed

lemma length_concat_replicate: "length (concat (replicate n xs)) = n * length xs"
  by (induction n) simp_all

lemma length_six_decks: "length six_decks = 312"
  by (simp add: six_decks_def length_concat_replicate suits_def ranks_def)

lemma six_decks_open: "c \<in> set six_decks \<Longrightarrow> \<not> hidden c"
  by (auto simp: six_decks_def)

lemma length_createDeck: "length (createDeck w) = 312"
  by (simp add: createDeck_def length_shuffle length_six_decks)

lemma mset_createDeck: "mset (createDeck w) = mset six_decks"
  unfolding createDeck_def by (rule mset_shuffle) (simp add: length_six_decks)

lemma createDeck_open: "c \<in> set (createDeck w) \<Longrightarrow> \<not> hidden c"
proof -
  assume "c \<in> set (createDeck w)"
  then have "c \<in># mset (createDeck w)" by simp
  then have "c \<in> set six_decks" unfolding mset_createDeck by simp
  then show ?thesis by (rule six_decks_open)
qed

lemma pop_snoc [simp]: "pop (xs @ [x]) = Some (x, xs)"
  by (simp add: pop_def)

lemma pop_Nil [simp]: "pop [] = None"
  by (simp add: pop_def)

lemma top_four:
  assumes "4 \<le> length d"
  obtains rest c4 c3 c2 c1 where "d = rest @ [c4, c3, c2, c1]"
proof -
  from assms have "d \<noteq> []" by auto
  then obtain d1 c1 where d1: "d = d1 @ [c1]" by (metis append_butlast_last_id)
  with assms have "d1 \<noteq> []" by auto
  then obtain d2 c2 where d2: "d1 = d2 @ [c2]" by (metis append_butlast_last_id)
  with assms d1 have "d2 \<noteq> []" by auto
  then obtain d3 c3 where d3: "d2 = d3 @ [c3]" by (metis append_butlast_last_id)
  with assms d1 d2 have "d3 \<noteq> []" by auto
  then obtain d4 c4 where d4: "d3 = d4 @ [c4]" by (metis append_butlast_last_id)
  show thesis by (rule that [of d4 c4 c3 c2 c1]) (simp add: d1 d2 d3 d4)
qed

lemma sendCardsReward_start_stores [simp]:
  "completedGames (snd (sendCardsReward_start w addr gid srv)) = completedGames srv"
  "games (snd (sendCardsReward_start w addr gid srv)) = games srv"
  "activePlayers (snd (sendCardsReward_start w addr gid srv)) = activePlayers srv"
  by (simp_all add: sendCardsReward_start_def Let_def)

lemma processReward_start_stores [simp]:
  "games (snd (processReward_start w g srv)) = games srv"
  "activePlayers (snd (processReward_start w g srv)) = activePlayers srv"
  by (simp_all add: processReward_start_def Let_def split: option.split prod.split)
    (metis sendCardsReward_start_stores(2,3) snd_conv paidRewards_completedGames_set(4,5))+

lemma processReward_start_entry:
  assumes "completedGames srv (gameId g) = Some e"
  shows "\<exists>e'. completedGames (snd (processReward_start w g srv)) (gameId g) = Some e'
      \<and> result e' = result e \<and> entry_playerId e' = entry_playerId e \<and> timestamp e' = timestamp e"
proof (cases "processed e")
  case True
  with assms show ?thesis by (simp add: processReward_start_def)
next
  case False
  have "completedGames (snd (processReward_start w g srv)) (gameId g) = Some (e\<lparr>processed := True\<rparr>)"
    using assms False
    by (simp add: processReward_start_def Let_def split: prod.split)
      (metis sendCardsReward_start_stores(1) snd_conv paidRewards_completedGames_set(2) fun_upd_same)
  then show ?thesis by simp
qed

lemma markGameAsCompleted_done [simp]:
  "completed g \<Longrightarrow> markGameAsCompleted w playerWon g srv = (g, srv)"
  by (simp add: markGameAsCompleted_def)

lemma markGameAsCompleted_game:
  "fst (markGameAsCompleted w playerWon g srv) = g\<lparr>completed := True\<rparr>"
  by (cases "completed g") (simp_all add: markGameAsCompleted_def Let_def)

lemma markGameAsCompleted_stores [simp]:
  "games (snd (markGameAsCompleted w playerWon g srv)) = games srv"
  "activePlayers (snd (markGameAsCompleted w playerWon g srv)) = activePlayers srv"
  by (simp_all add: markGameAsCompleted_def Let_def)

lemma markGameAsCompleted_entry:
  assumes "\<not> completed g"
  shows "\<exists>e. completedGames (snd (markGameAsCompleted w playerWon g srv)) (gameId g) = Some e
      \<and> result e = (if playerWon then win else loss)
      \<and> entry_playerId e = playerId g \<and> timestamp e = Date_now w"
proof (cases playerWon)
  case False
  with assms show ?thesis by (simp add: markGameAsCompleted_def Let_def)
next
  case True
  let ?entry = "\<lparr>entry_playerId = playerId g, result = win, timestamp = Date_now w, processed = False\<rparr>"
  let ?srv1 = "completedGames_set (gameId g) ?entry srv"
  have "completedGames ?srv1 (gameId (g\<lparr>completed := True\<rparr>)) = Some ?entry" by simp
  from processReward_start_entry [OF this, of w]
  obtain e' where "completedGames (snd (processReward_start w (g\<lparr>completed := True\<rparr>) ?srv1)) (gameId g) = Some e'"
    "result e' = win" "entry_playerId e' = playerId g" "timestamp e' = Date_now w"
    by auto
  with assms True show ?thesis by (simp add: markGameAsCompleted_def Let_def)
qed

lemma dealInitialCards_top:
  assumes "deck g = rest @ [c4, c3, c2, c1]"
  shows "dealInitialCards w g srv =
     (let g1 = g\<lparr>deck := rest, playerHand := [c1, c2], dealerHand := [c3, c4\<lparr>hidden := True\<rparr>]\<rparr>
      in if calculateScore [c1, c2] = 21
         then (case transitionState GAME_ENDED g1 of
                 Inl e \<Rightarrow> Inl e
               | Inr g2 \<Rightarrow> Inr (markGameAsCompleted w True g2 srv))
         else Inr (g1, srv))"
proof -
  have p: "pop (rest @ [c4, c3, c2, c1]) = Some (c1, rest @ [c4, c3, c2])"
    "pop (rest @ [c4, c3, c2]) = Some (c2, rest @ [c4, c3])"
    "pop (rest @ [c4, c3]) = Some (c3, rest @ [c4])"
    using pop_snoc [of "rest @ [c4, c3, c2]" c1] pop_snoc [of "rest @ [c4, c3]" c2]
      pop_snoc [of "rest @ [c4]" c3] by simp_all
  show ?thesis
    unfolding dealInitialCards_def assms by (simp add: p Let_def)
qed

lemma transitionState_ended [simp]:
  "state g = PLAYER_TURN \<Longrightarrow>
     transitionState GAME_ENDED g = Inr (g\<lparr>state := GAME_ENDED, stateHistory := stateHistory g @ [GAME_ENDED]\<rparr>)"
  "state g = DEALER_TURN \<Longrightarrow>
     transitionState GAME_ENDED g = Inr (g\<lparr>state := GAME_ENDED, stateHistory := stateHistory g @ [GAME_ENDED]\<rparr>)"
  "state g = PLAYER_TURN \<Longrightarrow>
     transitionState DEALER_TURN g = Inr (g\<lparr>state := DEALER_TURN, stateHistory := stateHistory g @ [DEALER_TURN]\<rparr>)"
  by (simp_all add: transitionState_def isValidStateTransition_def)

text \<open>What \<^verbatim>\<open>reset\<close> makes of a session, by the four cards on top of the new deck.\<close>

lemma reset_fields:
  assumes top: "createDeck w = rest @ [c4, c3, c2, c1]"
  obtains g' srv' where "reset w g srv = Inr (g', srv')"
    "deck g' = rest" "playerHand g' = [c1, c2]" "dealerHand g' = [c3, c4\<lparr>hidden := True\<rparr>]"
    "playerId g' = playerId g" "gameId g' = generateSecureId w"
    "currentBet g' = ENTRY_FEE" "rewardPaid g' = False"
    "games srv' = games srv" "activePlayers srv' = activePlayers srv"
    "calculateScore [c1, c2] = 21 \<Longrightarrow>
       state g' = GAME_ENDED \<and> completed g' \<and> stateHistory g' = [PLAYER_TURN, GAME_ENDED]
       \<and> (\<exists>e. completedGames srv' (gameId g') = Some e \<and> result e = win
              \<and> entry_playerId e = playerId g \<and> timestamp e = Date_now w)"
    "calculateScore [c1, c2] \<noteq> 21 \<Longrightarrow>
       state g' = PLAYER_TURN \<and> \<not> completed g' \<and> stateHistory g' = [PLAYER_TURN] \<and> srv' = srv"
proof -
  define g0 where "g0 = g\<lparr>deck := createDeck w, playerHand := [], dealerHand := [],
      state := PLAYER_TURN, currentBet := ENTRY_FEE, rewardPaid := False,
      gameId := generateSecureId w, completed := False, stateHistory := [PLAYER_TURN]\<rparr>"
  define g1 where "g1 = g0\<lparr>deck := rest, playerHand := [c1, c2], dealerHand := [c3, c4\<lparr>hidden := True\<rparr>]\<rparr>"
  define g2 where "g2 = g1\<lparr>state := GAME_ENDED, stateHistory := stateHistory g1 @ [GAME_ENDED]\<rparr>"
  have d0: "deck g0 = rest @ [c4, c3, c2, c1]" by (simp add: g0_def top)
  have r: "reset w g srv = dealInitialCards w g0 srv" by (simp add: reset_def g0_def)
  have s1: "state g1 = PLAYER_TURN" by (simp add: g1_def g0_def)
  have deal: "dealInitialCards w g0 srv =
      (if calculateScore [c1, c2] = 21 then Inr (markGameAsCompleted w True g2 srv) else Inr (g1, srv))"
    unfolding dealInitialCards_top [OF d0] g2_def
    by (simp add: Let_def g1_def [symmetric] transitionState_ended(1) [OF s1])
  show thesis
  proof (cases "calculateScore [c1, c2] = 21")
    case False
    show thesis
      by (rule that [of g1 srv]) (simp_all add: r deal False, simp_all add: g1_def g0_def)
  next
    case True
    have nc: "\<not> completed g2" by (simp add: g2_def g1_def g0_def)
    obtain e where e: "completedGames (snd (markGameAsCompleted w True g2 srv)) (gameId g2) = Some e"
      "result e = win" "entry_playerId e = playerId g2" "timestamp e = Date_now w"
      using markGameAsCompleted_entry [OF nc, of w True srv] by auto
    have res: "reset w g srv = Inr (g2\<lparr>completed := True\<rparr>, snd (markGameAsCompleted w True g2 srv))"
      using markGameAsCompleted_game [of w True g2 srv]
      by (simp add: r deal True prod_eq_iff)
    have ids: "gameId (g2\<lparr>completed := True\<rparr>) = gameId g2" "playerId g2 = playerId g"
      by (simp_all add: g2_def g1_def g0_def)
    show thesis
      by (rule that [OF res]) (simp_all add: True e ids, simp_all add: g2_def g1_def g0_def)
  qed
qed

lemma createDeck_top:
  obtains rest c4 c3 c2 c1 where "createDeck w = rest @ [c4, c3, c2, c1]"
    "\<not> hidden c1" "\<not> hidden c2" "\<not> hidden c3" "\<not> hidden c4" "length rest = 308"
    "\<forall>c\<in>set rest. \<not> hidden c"
proof -
  have "4 \<le> length (createDeck w)" by (simp add: length_createDeck)
  then obtain rest c4 c3 c2 c1 where d: "createDeck w = rest @ [c4, c3, c2, c1]"
    by (rule top_four)
  have "\<forall>c\<in>set (createDeck w). \<not> hidden c" using createDeck_open by blast
  then have "\<not> hidden c1" "\<not> hidden c2" "\<not> hidden c3" "\<not> hidden c4" "\<forall>c\<in>set rest. \<not> hidden c"
    unfolding d by simp_all
  moreover have "length rest = 308" using length_createDeck [of w] unfolding d by simp
  ultimately show thesis using d by (intro that [of rest c4 c3 c2 c1])
qed

lemma BlackjackGame_reset:
  assumes "PublicKey_ok w pid" "pid \<notin> activePlayers srv"
  shows "BlackjackGame w pid srv =
     reset w
       \<lparr>playerId = pid, gameId = generateSecureId w, completed = False, deck = [],
        playerHand = [], dealerHand = [], state = PLAYER_TURN, currentBet = ENTRY_FEE,
        rewardPaid = False, stateHistory = []\<rparr>
       (srv\<lparr>activePlayers := insert pid (activePlayers srv)\<rparr>)"
  using assms by (simp add: BlackjackGame_def)

text \<open>
  \<^verbatim>\<open>reset\<close> always returns: the new deck has 312 cards and the state it deals in is
  \<^verbatim>\<open>PLAYER_TURN\<close>, so neither the exhausted deck nor the refused transition occurs.
\<close>

lemma reset_returns: "\<exists>g' srv'. reset w g srv = Inr (g', srv')"
proof -
  obtain rest c4 c3 c2 c1 where top: "createDeck w = rest @ [c4, c3, c2, c1]"
    by (rule createDeck_top)
  obtain g' srv' where "reset w g srv = Inr (g', srv')"
    by (rule reset_fields [OF top])
  then show ?thesis by blast
qed

lemma low_total_append: "low_total (xs @ ys) = low_total xs + low_total ys"
  by (induction xs) simp_all

lemma spec_value_pos: "1 \<le> spec_value r"
  by (cases r) simp_all

lemma low_total_nonneg: "0 \<le> low_total h"
proof (induction h)
  case Nil
  show ?case by simp
next
  case (Cons c cs)
  then show ?case using spec_value_pos [of "rank c"] by simp
qed

lemma low_total_grows: "\<not> hidden c \<Longrightarrow> low_total h + 1 \<le> low_total (h @ [c])"
  using spec_value_pos [of "rank c"] by (simp add: low_total_append)

lemma low_total_le_score: "low_total h \<le> calculateScore h"
proof -
  obtain k where "calculateScore h = low_total h + 10 * int k"
    by (rule calculateScore_shape [of h])
  then show ?thesis by simp
qed

lemma dealer_draws_Some:
  "dealer_draws d h = Some (d', h') \<Longrightarrow>
     \<exists>drawn. h' = h @ drawn \<and> d = d' @ rev drawn \<and> 17 \<le> calculateScore h'
        \<and> (\<forall>k<length drawn. calculateScore (h @ take k drawn) < 17)"
proof (induction d h rule: dealer_draws.induct)
  case (1 d h)
  show ?case
  proof (cases "calculateScore h < 17")
    case False
    with "1.prems" have "d' = d" "h' = h" by (simp_all add: dealer_draws.simps [of d h])
    with False show ?thesis by (intro exI [of _ "[]"]) simp
  next
    case True
    with "1.prems" have ne: "d \<noteq> []"
      by (auto simp: dealer_draws.simps [of d h])
    with True "1.prems" have rec: "dealer_draws (butlast d) (h @ [last d]) = Some (d', h')"
      by (simp add: dealer_draws.simps [of d h])
    from "1.IH" [OF True ne rec] obtain drawn where dr:
      "h' = (h @ [last d]) @ drawn" "butlast d = d' @ rev drawn" "17 \<le> calculateScore h'"
      "\<forall>k<length drawn. calculateScore ((h @ [last d]) @ take k drawn) < 17"
      by blast
    have "d = butlast d @ [last d]" using ne by simp
    then have d: "d = d' @ rev (last d # drawn)" using dr(2) by simp
    have "\<forall>k<length (last d # drawn). calculateScore (h @ take k (last d # drawn)) < 17"
    proof (intro allI impI)
      fix k assume k: "k < length (last d # drawn)"
      show "calculateScore (h @ take k (last d # drawn)) < 17"
      proof (cases k)
        case 0
        with True show ?thesis by simp
      next
        case (Suc j)
        with k dr(4) show ?thesis by simp
      qed
    qed
    with dr(1,3) d show ?thesis by (intro exI [of _ "last d # drawn"]) simp
  qed
qed

lemma dealer_draws_total:
  "\<forall>c\<in>set d. \<not> hidden c \<Longrightarrow> nat (17 - low_total h) \<le> length d \<Longrightarrow>
     \<exists>d' h'. dealer_draws d h = Some (d', h')"
proof (induction d h rule: dealer_draws.induct)
  case (1 d h)
  show ?case
  proof (cases "calculateScore h < 17")
    case False
    then show ?thesis by (simp add: dealer_draws.simps [of d h])
  next
    case True
    then have low: "low_total h < 17" using low_total_le_score [of h] by simp
    with "1.prems"(2) have ne: "d \<noteq> []" by auto
    have op: "\<forall>c\<in>set (butlast d). \<not> hidden c"
      using "1.prems"(1) by (meson in_set_butlastD)
    have "\<not> hidden (last d)" using "1.prems"(1) ne by simp
    then have "low_total h + 1 \<le> low_total (h @ [last d])" by (rule low_total_grows)
    then have "nat (17 - low_total (h @ [last d])) \<le> length (butlast d)"
      using "1.prems"(2) low by simp
    from "1.IH" [OF True ne op this]
    show ?thesis using True ne by (simp add: dealer_draws.simps [of d h])
  qed
qed

lemma dealer_draws_enough:
  assumes "\<forall>c\<in>set d. \<not> hidden c" "17 \<le> length d"
  shows "\<exists>d' h'. dealer_draws d h = Some (d', h')"
proof -
  have "nat (17 - low_total h) \<le> 17" using low_total_nonneg [of h] by simp
  with assms(2) have "nat (17 - low_total h) \<le> length d" by simp
  with assms(1) show ?thesis by (rule dealer_draws_total)
qed

lemma stand_result:
  assumes "state g = PLAYER_TURN" "\<not> completed g"
    "\<forall>c\<in>set (deck g). \<not> hidden c" "17 \<le> length (deck g)"
  shows "\<exists>g' srv' drawn.
      stand w g srv = Inr (g', srv')
    \<and> dealerHand g' = map (\<lambda>card. card\<lparr>hidden := False\<rparr>) (dealerHand g) @ drawn
    \<and> deck g = deck g' @ rev drawn
    \<and> (\<forall>k<length drawn.
          calculateScore (map (\<lambda>card. card\<lparr>hidden := False\<rparr>) (dealerHand g) @ take k drawn) < 17)
    \<and> 17 \<le> calculateScore (dealerHand g')
    \<and> (\<forall>c\<in>set (dealerHand g'). \<not> hidden c)
    \<and> playerHand g' = playerHand g
    \<and> state g' = GAME_ENDED \<and> completed g'
    \<and> stateHistory g' = stateHistory g @ [DEALER_TURN, GAME_ENDED]
    \<and> (\<exists>e. completedGames srv' (gameId g) = Some e \<and> entry_playerId e = playerId g
          \<and> result e =
               (if calculateScore (playerHand g) > 21 then loss
                else if calculateScore (dealerHand g') > 21
                      \<or> calculateScore (playerHand g) > calculateScore (dealerHand g') then win
                else loss))"
proof -
  define g1 where "g1 = g\<lparr>state := DEALER_TURN, stateHistory := stateHistory g @ [DEALER_TURN]\<rparr>"
  define revealed where "revealed = map (\<lambda>card. card\<lparr>hidden := False\<rparr>) (dealerHand g)"
  obtain d h where dd: "dealer_draws (deck g) revealed = Some (d, h)"
    using dealer_draws_enough [OF assms(3,4), of revealed] by blast
  from dealer_draws_Some [OF dd] obtain drawn where dr:
    "h = revealed @ drawn" "deck g = d @ rev drawn" "17 \<le> calculateScore h"
    "\<forall>k<length drawn. calculateScore (revealed @ take k drawn) < 17"
    by blast
  define g2 where "g2 = g1\<lparr>deck := d, dealerHand := h\<rparr>"
  define g3 where "g3 = g2\<lparr>state := GAME_ENDED, stateHistory := stateHistory g2 @ [GAME_ENDED]\<rparr>"
  define playerWon where "playerWon \<longleftrightarrow>
     (if calculateScore (playerHand g) > 21 then False
      else if calculateScore h > 21 \<or> calculateScore (playerHand g) > calculateScore h then True
      else False)"
  have t1: "transitionState DEALER_TURN g = Inr g1"
    using assms(1) by (simp add: g1_def)
  have s2: "state g2 = DEALER_TURN" by (simp add: g2_def g1_def)
  have t2: "transitionState GAME_ENDED g2 = Inr g3"
    using transitionState_ended(2) [OF s2] by (simp add: g3_def)
  have f1: "deck g1 = deck g" "dealerHand g1 = dealerHand g" by (simp_all add: g1_def)
  have f3: "playerHand g3 = playerHand g" by (simp add: g3_def g2_def g1_def)
  have st: "stand w g srv = Inr (markGameAsCompleted w playerWon g3 srv)"
    using assms(1,2)
    by (simp add: stand_def t1 f1 dd [unfolded revealed_def] Let_def g2_def [symmetric] t2 f3
        playerWon_def)
  have nc: "\<not> completed g3" using assms(2) by (simp add: g3_def g2_def g1_def)
  obtain e where e: "completedGames (snd (markGameAsCompleted w playerWon g3 srv)) (gameId g3) = Some e"
    "result e = (if playerWon then win else loss)" "entry_playerId e = playerId g3"
    using markGameAsCompleted_entry [OF nc, of w playerWon srv] by blast
  have res: "result e = (if calculateScore (playerHand g) > 21 then loss
                else if calculateScore h > 21
                      \<or> calculateScore (playerHand g) > calculateScore h then win
                else loss)"
    using e(2) by (simp add: playerWon_def)
  have op: "\<forall>c\<in>set h. \<not> hidden c"
  proof
    fix c assume "c \<in> set h"
    then consider "c \<in> set revealed" | "c \<in> set drawn" unfolding dr(1) by auto
    then show "\<not> hidden c"
    proof cases
      case 1
      then show ?thesis by (auto simp: revealed_def)
    next
      case 2
      then have "c \<in> set (deck g)" unfolding dr(2) by simp
      with assms(3) show ?thesis by blast
    qed
  qed
  let ?g' = "g3\<lparr>completed := True\<rparr>"
  let ?srv' = "snd (markGameAsCompleted w playerWon g3 srv)"
  have "stand w g srv = Inr (?g', ?srv')"
    using markGameAsCompleted_game [of w playerWon g3 srv] by (simp add: st prod_eq_iff)
  moreover have "dealerHand ?g' = revealed @ drawn" "deck ?g' = d" "playerHand ?g' = playerHand g"
    "state ?g' = GAME_ENDED" "completed ?g'"
    "stateHistory ?g' = stateHistory g @ [DEALER_TURN, GAME_ENDED]"
    "gameId g3 = gameId g" "playerId g3 = playerId g"
    by (simp_all add: g3_def g2_def g1_def dr(1))
  ultimately show ?thesis
    using dr e(1,3) res op unfolding revealed_def [symmetric]
    by (intro exI [of _ ?g'] exI [of _ ?srv'] exI [of _ drawn]) auto
qed



lemma processReward_resume_game:
  "processReward_resume chain k g srv = (r, g', srv') \<Longrightarrow> g' = g \<or> g' = g\<lparr>rewardPaid := True\<rparr>"
  by (auto simp: processReward_resume_def processReward_catch_def
      split: prod.splits send_start.splits sum.splits)

lemma reset_Inr:
  assumes "reset w g srv = Inr (g', srv')"
  obtains rest c4 c3 c2 c1 where "createDeck w = rest @ [c4, c3, c2, c1]"
    "deck g' = rest" "playerHand g' = [c1, c2]" "dealerHand g' = [c3, c4\<lparr>hidden := True\<rparr>]"
    "\<not> hidden c1" "\<not> hidden c2" "\<forall>c\<in>set rest. \<not> hidden c" "length rest = 308"
    "calculateScore [c1, c2] = 21 \<Longrightarrow> state g' = GAME_ENDED \<and> completed g'"
    "calculateScore [c1, c2] \<noteq> 21 \<Longrightarrow> state g' = PLAYER_TURN \<and> \<not> completed g'"
proof -
  obtain rest c4 c3 c2 c1 where top: "createDeck w = rest @ [c4, c3, c2, c1]"
    and op: "\<not> hidden c1" "\<not> hidden c2" "\<forall>c\<in>set rest. \<not> hidden c" "length rest = 308"
    by (rule createDeck_top)
  obtain g'' srv'' where r: "reset w g srv = Inr (g'', srv'')"
    "deck g'' = rest" "playerHand g'' = [c1, c2]" "dealerHand g'' = [c3, c4\<lparr>hidden := True\<rparr>]"
    "calculateScore [c1, c2] = 21 \<Longrightarrow>
       state g'' = GAME_ENDED \<and> completed g'' \<and> stateHistory g'' = [PLAYER_TURN, GAME_ENDED]
       \<and> (\<exists>e. completedGames srv'' (gameId g'') = Some e \<and> result e = win
              \<and> entry_playerId e = playerId g \<and> timestamp e = Date_now w)"
    "calculateScore [c1, c2] \<noteq> 21 \<Longrightarrow>
       state g'' = PLAYER_TURN \<and> \<not> completed g'' \<and> stateHistory g'' = [PLAYER_TURN] \<and> srv'' = srv"
    using reset_fields [OF top, of g srv] by metis
  from r(1) assms have "g'' = g'" by simp
  with r(2-6) top op show thesis by (intro that [of rest c4 c3 c2 c1]) simp_all
qed

lemma BlackjackGame_Inr:
  assumes "BlackjackGame w pid srv = Inr (g', srv')"
  obtains g srv1 where "reset w g srv1 = Inr (g', srv')"
  using assms by (auto simp: BlackjackGame_def split: if_splits)

lemma hit_Inr:
  assumes "hit w g srv = Inr (g', srv')"
  obtains c where "state g = PLAYER_TURN" "deck g = deck g' @ [c]"
    "playerHand g' = playerHand g @ [c]" "dealerHand g' = dealerHand g"
    "21 \<le> calculateScore (playerHand g') \<Longrightarrow> state g' = GAME_ENDED \<and> completed g'"
    "calculateScore (playerHand g') < 21 \<Longrightarrow> state g' = PLAYER_TURN \<and> completed g' = completed g"
proof -
  from assms have st: "state g = PLAYER_TURN" by (auto simp: hit_def split: if_splits)
  from assms st have ne: "deck g \<noteq> []" by (auto simp: hit_def pop_def split: if_splits)
  define c where "c = last (deck g)"
  define g1 where "g1 = g\<lparr>deck := butlast (deck g), playerHand := playerHand g @ [c]\<rparr>"
  define g2 where "g2 = g1\<lparr>state := GAME_ENDED, stateHistory := stateHistory g1 @ [GAME_ENDED]\<rparr>"
  have s1: "state g1 = PLAYER_TURN" using st by (simp add: g1_def)
  have p1: "playerHand g1 = playerHand g @ [c]" by (simp add: g1_def)
  have h: "hit w g srv =
     (if calculateScore (playerHand g @ [c]) > 21 then Inr (markGameAsCompleted w False g2 srv)
      else if calculateScore (playerHand g @ [c]) = 21 then Inr (markGameAsCompleted w True g2 srv)
      else Inr (g1, srv))"
    using st ne
    by (simp add: hit_def pop_def Let_def c_def [symmetric] g1_def [symmetric] p1
        transitionState_ended(1) [OF s1] g2_def [symmetric])
  have d: "deck g = butlast (deck g) @ [c]" using ne by (simp add: c_def)
  show thesis
  proof (cases "calculateScore (playerHand g @ [c]) < 21")
    case True
    with h assms have "g' = g1" by simp
    with True st d show ?thesis by (intro that [of c]) (simp_all add: g1_def)
  next
    case False
    then obtain won where "hit w g srv = Inr (markGameAsCompleted w won g2 srv)"
      using h by (cases "calculateScore (playerHand g @ [c]) > 21") auto
    with assms have "g' = fst (markGameAsCompleted w won g2 srv)" by simp
    then have "g' = g2\<lparr>completed := True\<rparr>" by (simp add: markGameAsCompleted_game)
    with False st d show ?thesis by (intro that [of c]) (simp_all add: g2_def g1_def)
  qed
qed

lemma stand_Inr:
  assumes "stand w g srv = Inr (g', srv')"
  obtains drawn where "state g = PLAYER_TURN" "\<not> completed g"
    "state g' = GAME_ENDED" "completed g'" "playerHand g' = playerHand g"
    "dealerHand g' = map (\<lambda>card. card\<lparr>hidden := False\<rparr>) (dealerHand g) @ drawn"
    "deck g = deck g' @ rev drawn"
proof -
  from assms have st: "state g = PLAYER_TURN" "\<not> completed g"
    by (auto simp: stand_def split: if_splits)
  define g1 where "g1 = g\<lparr>state := DEALER_TURN, stateHistory := stateHistory g @ [DEALER_TURN]\<rparr>"
  define revealed where "revealed = map (\<lambda>card. card\<lparr>hidden := False\<rparr>) (dealerHand g)"
  have t1: "transitionState DEALER_TURN g = Inr g1" using st(1) by (simp add: g1_def)
  have f1: "deck g1 = deck g" "dealerHand g1 = dealerHand g" by (simp_all add: g1_def)
  from assms st obtain d h where dd: "dealer_draws (deck g) revealed = Some (d, h)"
    by (auto simp: stand_def t1 f1 revealed_def split: option.splits)
  from dealer_draws_Some [OF dd] obtain drawn where dr:
    "h = revealed @ drawn" "deck g = d @ rev drawn"
    by blast
  define g2 where "g2 = g1\<lparr>deck := d, dealerHand := h\<rparr>"
  define g3 where "g3 = g2\<lparr>state := GAME_ENDED, stateHistory := stateHistory g2 @ [GAME_ENDED]\<rparr>"
  have s2: "state g2 = DEALER_TURN" by (simp add: g2_def g1_def)
  have t2: "transitionState GAME_ENDED g2 = Inr g3"
    using transitionState_ended(2) [OF s2] by (simp add: g3_def)
  obtain won where "stand w g srv = Inr (markGameAsCompleted w won g3 srv)"
    using st by (simp add: stand_def t1 f1 dd [unfolded revealed_def] Let_def g2_def [symmetric] t2)
  with assms have "g' = fst (markGameAsCompleted w won g3 srv)" by simp
  then have "g' = g3\<lparr>completed := True\<rparr>" by (simp add: markGameAsCompleted_game)
  with st dr show thesis
    by (intro that [of drawn]) (simp_all add: g3_def g2_def g1_def revealed_def)
qed

lemma reachable_completed:
  "reachable g \<Longrightarrow> (completed g \<longleftrightarrow> state g = GAME_ENDED) \<and> (state g = PLAYER_TURN \<or> state g = GAME_ENDED)"
proof (induction rule: reachable.induct)
  case (created w pid srv g srv')
  then obtain g0 srv1 where "reset w g0 srv1 = Inr (g, srv')" by (rule BlackjackGame_Inr)
  then obtain c1 c2 where
    "calculateScore [c1, c2] = 21 \<Longrightarrow> state g = GAME_ENDED \<and> completed g"
    "calculateScore [c1, c2] \<noteq> 21 \<Longrightarrow> state g = PLAYER_TURN \<and> \<not> completed g"
    by (rule reset_Inr) blast
  then show ?case by (cases "calculateScore [c1, c2] = 21") simp_all
next
  case (reset g w srv g' srv')
  from reset.hyps(2) obtain c1 c2 where
    "calculateScore [c1, c2] = 21 \<Longrightarrow> state g' = GAME_ENDED \<and> completed g'"
    "calculateScore [c1, c2] \<noteq> 21 \<Longrightarrow> state g' = PLAYER_TURN \<and> \<not> completed g'"
    by (rule reset_Inr) blast
  then show ?case by (cases "calculateScore [c1, c2] = 21") simp_all
next
  case (hit g w srv g' srv')
  from hit.hyps(2) obtain c where h: "state g = PLAYER_TURN"
    "21 \<le> calculateScore (playerHand g') \<Longrightarrow> state g' = GAME_ENDED \<and> completed g'"
    "calculateScore (playerHand g') < 21 \<Longrightarrow> state g' = PLAYER_TURN \<and> completed g' = completed g"
    by (rule hit_Inr) blast
  with hit.IH show ?case by (cases "calculateScore (playerHand g') < 21") simp_all
next
  case (stand g w srv g' srv')
  from stand.hyps(2) obtain drawn where "state g' = GAME_ENDED" "completed g'"
    by (rule stand_Inr) blast
  then show ?case by simp
next
  case (paid g chain k srv r g' srv')
  from paid.hyps(2) have "g' = g \<or> g' = g\<lparr>rewardPaid := True\<rparr>"
    by (rule processReward_resume_game)
  with paid.IH show ?case by auto
qed


lemma low_total_two: "low_total [c1, c2] \<le> 20"
proof -
  have one: "low_total [c] \<le> 10" for c
    by (cases "rank c") simp_all
  have "low_total [c1, c2] = low_total [c1] + low_total [c2]"
    using low_total_append [of "[c1]" "[c2]"] by simp
  with one [of c1] one [of c2] show ?thesis by simp
qed

lemma two_cards_at_most_21: "calculateScore [c1, c2] \<le> 21"
proof -
  have "low_total [c1, c2] \<in> set (totals [c1, c2])"
    unfolding totals_iff by (intro exI [of _ 0]) simp
  moreover have "low_total [c1, c2] \<le> 21" using low_total_two [of c1 c2] by simp
  ultimately show ?thesis by (rule calculateScore_upper(2))
qed

lemma length_le_low_total: "\<forall>c\<in>set h. \<not> hidden c \<Longrightarrow> int (length h) \<le> low_total h"
proof (induction h)
  case Nil
  show ?case by simp
next
  case (Cons c cs)
  then show ?case using spec_value_pos [of "rank c"] by simp
qed

text \<open>The deck of a session the operations produce is never short of cards.\<close>

lemma reachable_supply:
  "reachable g \<Longrightarrow>
     (\<forall>c\<in>set (deck g). \<not> hidden c) \<and> (\<forall>c\<in>set (playerHand g). \<not> hidden c)
     \<and> length (deck g) + length (playerHand g) + length (dealerHand g) = 312
     \<and> (state g = PLAYER_TURN \<longrightarrow> length (dealerHand g) = 2 \<and> calculateScore (playerHand g) < 21)"
proof (induction rule: reachable.induct)
  case (created w pid srv g srv')
  then obtain g0 srv1 where "reset w g0 srv1 = Inr (g, srv')" by (rule BlackjackGame_Inr)
  then obtain rest c4 c3 c2 c1 where r:
    "deck g = rest" "playerHand g = [c1, c2]" "dealerHand g = [c3, c4\<lparr>hidden := True\<rparr>]"
    "\<not> hidden c1" "\<not> hidden c2" "\<forall>c\<in>set rest. \<not> hidden c" "length rest = 308"
    "calculateScore [c1, c2] = 21 \<Longrightarrow> state g = GAME_ENDED \<and> completed g"
    by (rule reset_Inr) blast
  have "state g = PLAYER_TURN \<longrightarrow> calculateScore [c1, c2] < 21"
    using r(8) two_cards_at_most_21 [of c1 c2] by (cases "calculateScore [c1, c2] = 21") auto
  with r(1-7) show ?case by simp
next
  case (reset g w srv g' srv')
  from reset.hyps(2) obtain rest c4 c3 c2 c1 where r:
    "deck g' = rest" "playerHand g' = [c1, c2]" "dealerHand g' = [c3, c4\<lparr>hidden := True\<rparr>]"
    "\<not> hidden c1" "\<not> hidden c2" "\<forall>c\<in>set rest. \<not> hidden c" "length rest = 308"
    "calculateScore [c1, c2] = 21 \<Longrightarrow> state g' = GAME_ENDED \<and> completed g'"
    by (rule reset_Inr) blast
  have "state g' = PLAYER_TURN \<longrightarrow> calculateScore [c1, c2] < 21"
    using r(8) two_cards_at_most_21 [of c1 c2] by (cases "calculateScore [c1, c2] = 21") auto
  with r(1-7) show ?case by simp
next
  case (hit g w srv g' srv')
  from hit.hyps(2) obtain c where h: "state g = PLAYER_TURN" "deck g = deck g' @ [c]"
    "playerHand g' = playerHand g @ [c]" "dealerHand g' = dealerHand g"
    "21 \<le> calculateScore (playerHand g') \<Longrightarrow> state g' = GAME_ENDED \<and> completed g'"
    by (rule hit_Inr) blast
  have "state g' = PLAYER_TURN \<longrightarrow> calculateScore (playerHand g') < 21"
    using h(5) by (cases "21 \<le> calculateScore (playerHand g')") auto
  with hit.IH h(1-4) show ?case by auto
next
  case (stand g w srv g' srv')
  from stand.hyps(2) obtain drawn where s: "state g' = GAME_ENDED" "playerHand g' = playerHand g"
    "dealerHand g' = map (\<lambda>card. card\<lparr>hidden := False\<rparr>) (dealerHand g) @ drawn"
    "deck g = deck g' @ rev drawn"
    by (rule stand_Inr) blast
  from s(4) have "length (deck g) = length (deck g') + length drawn" by simp
  with stand.IH s show ?case by auto
next
  case (paid g chain k srv r g' srv')
  from paid.hyps(2) have "g' = g \<or> g' = g\<lparr>rewardPaid := True\<rparr>"
    by (rule processReward_resume_game)
  with paid.IH show ?case by auto
qed

lemma reachable_player_turn:
  assumes "reachable g" "state g = PLAYER_TURN"
  shows "\<not> completed g" "\<forall>c\<in>set (deck g). \<not> hidden c" "17 \<le> length (deck g)"
proof -
  show "\<not> completed g" using reachable_completed [OF assms(1)] assms(2) by simp
  from reachable_supply [OF assms(1)] assms(2)
  have s: "\<forall>c\<in>set (deck g). \<not> hidden c" "\<forall>c\<in>set (playerHand g). \<not> hidden c"
    "length (deck g) + length (playerHand g) + length (dealerHand g) = 312"
    "length (dealerHand g) = 2" "calculateScore (playerHand g) < 21"
    by simp_all
  show "\<forall>c\<in>set (deck g). \<not> hidden c" by (rule s(1))
  have "int (length (playerHand g)) \<le> low_total (playerHand g)"
    using s(2) by (rule length_le_low_total)
  also have "\<dots> \<le> calculateScore (playerHand g)" by (rule low_total_le_score)
  finally have "length (playerHand g) < 21" using s(5) by simp
  with s(3,4) show "17 \<le> length (deck g)" by simp
qed

text \<open>On such a session in \<^verbatim>\<open>PLAYER_TURN\<close> both actions return.\<close>

lemma reachable_actions_return:
  assumes "reachable g" "state g = PLAYER_TURN"
  shows "\<exists>g' srv'. stand w g srv = Inr (g', srv')" "\<exists>g' srv'. hit w g srv = Inr (g', srv')"
proof -
  note p = reachable_player_turn [OF assms]
  show "\<exists>g' srv'. stand w g srv = Inr (g', srv')"
    using stand_result [OF assms(2) p, of w srv] by blast
  from p(3) have ne: "deck g \<noteq> []" by auto
  define g1 where "g1 = g\<lparr>deck := butlast (deck g), playerHand := playerHand g @ [last (deck g)]\<rparr>"
  have s1: "state g1 = PLAYER_TURN" using assms(2) by (simp add: g1_def)
  show "\<exists>g' srv'. hit w g srv = Inr (g', srv')"
    using assms(2) ne
    by (simp add: hit_def pop_def Let_def g1_def [symmetric] transitionState_ended(1) [OF s1]
        split_paired_all)
qed

lemma BlackjackGame_returns:
  assumes "PublicKey_ok w pid" "pid \<notin> activePlayers srv"
  obtains g srv' where "BlackjackGame w pid srv = Inr (g, srv')"
proof -
  obtain rest c4 c3 c2 c1 where top: "createDeck w = rest @ [c4, c3, c2, c1]"
    by (rule createDeck_top)
  obtain g' srv' where "reset w
       \<lparr>playerId = pid, gameId = generateSecureId w, completed = False, deck = [],
        playerHand = [], dealerHand = [], state = PLAYER_TURN, currentBet = ENTRY_FEE,
        rewardPaid = False, stateHistory = []\<rparr>
       (srv\<lparr>activePlayers := insert pid (activePlayers srv)\<rparr>) = Inr (g', srv')"
    by (rule reset_fields [OF top])
  then show thesis using BlackjackGame_reset [OF assms] by (intro that [of g' srv']) simp
qed

lemma createDeck_example_world:
  "drop 308 (createDeck example_world) =
   [\<lparr>suit = spades, rank = N10, hidden = False\<rparr>,
    \<lparr>suit = spades, rank = Jack, hidden = False\<rparr>,
    \<lparr>suit = spades, rank = Queen, hidden = False\<rparr>,
    \<lparr>suit = spades, rank = King, hidden = False\<rparr>]"
proof -
  have "drop 308 (shuffle (\<lambda>i. i) 311 six_decks) =
   [\<lparr>suit = spades, rank = N10, hidden = False\<rparr>,
    \<lparr>suit = spades, rank = Jack, hidden = False\<rparr>,
    \<lparr>suit = spades, rank = Queen, hidden = False\<rparr>,
    \<lparr>suit = spades, rank = King, hidden = False\<rparr>]"
    by code_simp
  then show ?thesis
    by (simp add: createDeck_def example_world_def length_six_decks)
qed

text \<open>The session the constructor makes in \<open>example_world\<close>: King, Queen against Jack and a
  hidden ten, the player's turn.\<close>

lemma example_session:
  obtains g srv' where
    "BlackjackGame example_world (playerId example_game) (example_server\<lparr>activePlayers := {}\<rparr>)
       = Inr (g, srv')"
    "reachable g"
    "playerHand g = [\<lparr>suit = spades, rank = King, hidden = False\<rparr>,
                     \<lparr>suit = spades, rank = Queen, hidden = False\<rparr>]"
    "dealerHand g = [\<lparr>suit = spades, rank = Jack, hidden = False\<rparr>,
                     \<lparr>suit = spades, rank = N10, hidden = True\<rparr>]"
    "state g = PLAYER_TURN" "\<not> completed g"
    "deck g = take 308 (createDeck example_world)"
proof -
  have h: "PublicKey_ok example_world (playerId example_game)"
    "playerId example_game \<notin> activePlayers (example_server\<lparr>activePlayers := {}\<rparr>)"
    by (simp_all add: example_defs)
  obtain g srv' where c: "BlackjackGame example_world (playerId example_game)
      (example_server\<lparr>activePlayers := {}\<rparr>) = Inr (g, srv')"
    using h by (rule BlackjackGame_returns)
  then have r: "reachable g" by (rule reachable.created)
  from c obtain g0 srv0 where "reset example_world g0 srv0 = Inr (g, srv')"
    by (rule BlackjackGame_Inr)
  then obtain rest c4 c3 c2 c1 where t: "createDeck example_world = rest @ [c4, c3, c2, c1]"
    "playerHand g = [c1, c2]" "dealerHand g = [c3, c4\<lparr>hidden := True\<rparr>]" "length rest = 308"
    "calculateScore [c1, c2] \<noteq> 21 \<Longrightarrow> state g = PLAYER_TURN \<and> \<not> completed g"
    "deck g = rest"
    by (rule reset_Inr) blast
  from t(4) have "drop 308 (createDeck example_world) = [c4, c3, c2, c1]" unfolding t(1) by simp
  then have cs: "c4 = \<lparr>suit = spades, rank = N10, hidden = False\<rparr>"
    "c3 = \<lparr>suit = spades, rank = Jack, hidden = False\<rparr>"
    "c2 = \<lparr>suit = spades, rank = Queen, hidden = False\<rparr>"
    "c1 = \<lparr>suit = spades, rank = King, hidden = False\<rparr>"
    unfolding createDeck_example_world by simp_all
  have "calculateScore [c1, c2] \<noteq> 21"
    unfolding cs by (simp add: calculateScore_def score_step_def soften.simps)
  with t(5) have "state g = PLAYER_TURN" "\<not> completed g" by simp_all
  moreover have "deck g = take 308 (createDeck example_world)" unfolding t(1) t(6) using t(4) by simp
  ultimately show thesis using c r t(2,3) unfolding cs by (intro that [of g srv']) simp_all
qed

lemma createDeck_example_world_next:
  "createDeck example_world ! 307 = \<lparr>suit = spades, rank = N9, hidden = False\<rparr>"
proof -
  have "shuffle (\<lambda>i. i) 311 six_decks ! 307 = \<lparr>suit = spades, rank = N9, hidden = False\<rparr>"
    by code_simp
  then show ?thesis
    by (simp add: createDeck_def example_world_def length_six_decks)
qed

text \<open>
  What each operation makes of a session: \<^verbatim>\<open>reset\<close> assigns \<^verbatim>\<open>PLAYER_TURN\<close> and
  \<^verbatim>\<open>completed = false\<close> and then deals, \<^verbatim>\<open>hit\<close> draws one card, and each of them ends
  the session through \<^verbatim>\<open>markGameAsCompleted\<close> exactly when the player's total calls for it.
\<close>

lemma reset_result:
  "\<exists>g' srv' rest c4 c3 c2 c1.
      reset w g srv = Inr (g', srv')
    \<and> (\<exists>g0. reset w g srv = dealInitialCards w g0 srv
              \<and> state g0 = PLAYER_TURN \<and> \<not> completed g0 \<and> playerHand g0 = [])
    \<and> createDeck w = rest @ [c4, c3, c2, c1]
    \<and> deck g' = rest \<and> playerHand g' = [c1, c2] \<and> dealerHand g' = [c3, c4\<lparr>hidden := True\<rparr>]
    \<and> (if calculateScore [c1, c2] = 21
        then state g' = GAME_ENDED \<and> completed g'
           \<and> (\<exists>e. completedGames srv' (gameId g') = Some e \<and> result e = win)
        else state g' = PLAYER_TURN \<and> \<not> completed g' \<and> srv' = srv)"
proof -
  obtain rest c4 c3 c2 c1 where top: "createDeck w = rest @ [c4, c3, c2, c1]"
    by (rule createDeck_top)
  obtain g' srv' where r: "reset w g srv = Inr (g', srv')"
    "deck g' = rest" "playerHand g' = [c1, c2]" "dealerHand g' = [c3, c4\<lparr>hidden := True\<rparr>]"
    "calculateScore [c1, c2] = 21 \<Longrightarrow>
       state g' = GAME_ENDED \<and> completed g' \<and> stateHistory g' = [PLAYER_TURN, GAME_ENDED]
       \<and> (\<exists>e. completedGames srv' (gameId g') = Some e \<and> result e = win
              \<and> entry_playerId e = playerId g \<and> timestamp e = Date_now w)"
    "calculateScore [c1, c2] \<noteq> 21 \<Longrightarrow>
       state g' = PLAYER_TURN \<and> \<not> completed g' \<and> stateHistory g' = [PLAYER_TURN] \<and> srv' = srv"
    using reset_fields [OF top, of g srv] by metis
  have "if calculateScore [c1, c2] = 21
        then state g' = GAME_ENDED \<and> completed g'
           \<and> (\<exists>e. completedGames srv' (gameId g') = Some e \<and> result e = win)
        else state g' = PLAYER_TURN \<and> \<not> completed g' \<and> srv' = srv"
    using r(5,6) by (cases "calculateScore [c1, c2] = 21") auto
  moreover have "\<exists>g0. reset w g srv = dealInitialCards w g0 srv
      \<and> state g0 = PLAYER_TURN \<and> \<not> completed g0 \<and> playerHand g0 = []"
    unfolding reset_def
    by (rule exI [of _ "g\<lparr>deck := createDeck w, playerHand := [], dealerHand := [],
          state := PLAYER_TURN, currentBet := ENTRY_FEE, rewardPaid := False,
          gameId := generateSecureId w, completed := False, stateHistory := [PLAYER_TURN]\<rparr>"]) simp
  ultimately show ?thesis using top r(1-4) by blast
qed

lemma hit_result:
  assumes "state g = PLAYER_TURN" "\<not> completed g" "deck g \<noteq> []"
  shows "\<exists>g' srv' c.
      hit w g srv = Inr (g', srv')
    \<and> deck g = deck g' @ [c] \<and> playerHand g' = playerHand g @ [c] \<and> dealerHand g' = dealerHand g
    \<and> (if 21 \<le> calculateScore (playerHand g')
        then state g' = GAME_ENDED \<and> completed g'
           \<and> (\<exists>e. completedGames srv' (gameId g') = Some e
                  \<and> result e = (if calculateScore (playerHand g') = 21 then win else loss))
        else state g' = PLAYER_TURN \<and> \<not> completed g' \<and> srv' = srv)"
proof -
  define c where "c = last (deck g)"
  define g1 where "g1 = g\<lparr>deck := butlast (deck g), playerHand := playerHand g @ [c]\<rparr>"
  define g2 where "g2 = g1\<lparr>state := GAME_ENDED, stateHistory := stateHistory g1 @ [GAME_ENDED]\<rparr>"
  have s1: "state g1 = PLAYER_TURN" using assms(1) by (simp add: g1_def)
  have p1: "playerHand g1 = playerHand g @ [c]" by (simp add: g1_def)
  have h: "hit w g srv =
     (if calculateScore (playerHand g @ [c]) > 21 then Inr (markGameAsCompleted w False g2 srv)
      else if calculateScore (playerHand g @ [c]) = 21 then Inr (markGameAsCompleted w True g2 srv)
      else Inr (g1, srv))"
    using assms(1,3)
    by (simp add: hit_def pop_def Let_def c_def [symmetric] g1_def [symmetric] p1
        transitionState_ended(1) [OF s1] g2_def [symmetric])
  have d: "deck g = butlast (deck g) @ [c]" using assms(3) by (simp add: c_def)
  show ?thesis
  proof (cases "calculateScore (playerHand g @ [c]) < 21")
    case True
    then have "hit w g srv = Inr (g1, srv)" using h by simp
    moreover have "deck g = deck g1 @ [c]" "playerHand g1 = playerHand g @ [c]"
      "dealerHand g1 = dealerHand g" "state g1 = PLAYER_TURN" "\<not> completed g1"
      using d assms(1,2) by (simp_all add: g1_def)
    ultimately show ?thesis using True
      by (intro exI [of _ g1] exI [of _ srv] exI [of _ c]) simp
  next
    case False
    define won where "won \<longleftrightarrow> calculateScore (playerHand g @ [c]) = 21"
    have hw: "hit w g srv = Inr (markGameAsCompleted w won g2 srv)"
      using h False by (cases "calculateScore (playerHand g @ [c]) > 21") (auto simp: won_def)
    have nc: "\<not> completed g2" using assms(2) by (simp add: g2_def g1_def)
    obtain e where e: "completedGames (snd (markGameAsCompleted w won g2 srv)) (gameId g2) = Some e"
      "result e = (if won then win else loss)"
      using markGameAsCompleted_entry [OF nc, of w won srv] by blast
    let ?g' = "g2\<lparr>completed := True\<rparr>"
    let ?srv' = "snd (markGameAsCompleted w won g2 srv)"
    have "hit w g srv = Inr (?g', ?srv')"
      using markGameAsCompleted_game [of w won g2 srv] by (simp add: hw prod_eq_iff)
    moreover have "deck g = deck ?g' @ [c]" "playerHand ?g' = playerHand g @ [c]"
      "dealerHand ?g' = dealerHand g" "state ?g' = GAME_ENDED" "completed ?g'"
      "gameId ?g' = gameId g2"
      using d by (simp_all add: g2_def g1_def)
    ultimately show ?thesis using False e
      by (intro exI [of _ ?g'] exI [of _ ?srv'] exI [of _ c]) (simp add: won_def)
  qed
qed

lemma reachable_operations:
  assumes "reachable g"
  shows "(completed g \<longleftrightarrow> state g = GAME_ENDED)
       \<and> (state g = PLAYER_TURN \<or> state g = GAME_ENDED)
       \<and> (completed g \<longrightarrow> markGameAsCompleted w playerWon g srv = (g, srv))
       \<and> (\<exists>g' srv' rest c4 c3 c2 c1.
             reset w g srv = Inr (g', srv')
           \<and> (\<exists>g0. reset w g srv = dealInitialCards w g0 srv
                     \<and> state g0 = PLAYER_TURN \<and> \<not> completed g0 \<and> playerHand g0 = [])
           \<and> createDeck w = rest @ [c4, c3, c2, c1]
           \<and> deck g' = rest \<and> playerHand g' = [c1, c2] \<and> dealerHand g' = [c3, c4\<lparr>hidden := True\<rparr>]
           \<and> (if calculateScore [c1, c2] = 21
               then state g' = GAME_ENDED \<and> completed g'
                  \<and> (\<exists>e. completedGames srv' (gameId g') = Some e \<and> result e = win)
               else state g' = PLAYER_TURN \<and> \<not> completed g' \<and> srv' = srv))
       \<and> (state g = PLAYER_TURN \<longrightarrow>
            (\<exists>g' srv' c.
                hit w g srv = Inr (g', srv')
              \<and> deck g = deck g' @ [c] \<and> playerHand g' = playerHand g @ [c]
              \<and> dealerHand g' = dealerHand g
              \<and> (if 21 \<le> calculateScore (playerHand g')
                  then state g' = GAME_ENDED \<and> completed g'
                     \<and> (\<exists>e. completedGames srv' (gameId g') = Some e
                            \<and> result e = (if calculateScore (playerHand g') = 21 then win else loss))
                  else state g' = PLAYER_TURN \<and> \<not> completed g' \<and> srv' = srv))
          \<and> (\<exists>g' srv' drawn.
                stand w g srv = Inr (g', srv')
              \<and> state g' = GAME_ENDED \<and> completed g'
              \<and> stateHistory g' = stateHistory g @ [DEALER_TURN, GAME_ENDED]
              \<and> playerHand g' = playerHand g
              \<and> dealerHand g' = map (\<lambda>card. card\<lparr>hidden := False\<rparr>) (dealerHand g) @ drawn
              \<and> deck g = deck g' @ rev drawn
              \<and> (\<exists>e. completedGames srv' (gameId g') = Some e)))
       \<and> (state g = GAME_ENDED \<longrightarrow> hit w g srv = Inl CannotHit \<and> stand w g srv = Inl CannotStand)"
proof (intro conjI)
  show "completed g \<longleftrightarrow> state g = GAME_ENDED" "state g = PLAYER_TURN \<or> state g = GAME_ENDED"
    using reachable_completed [OF assms] by simp_all
  show "completed g \<longrightarrow> markGameAsCompleted w playerWon g srv = (g, srv)" by simp
  show "\<exists>g' srv' rest c4 c3 c2 c1.
             reset w g srv = Inr (g', srv')
           \<and> (\<exists>g0. reset w g srv = dealInitialCards w g0 srv
                     \<and> state g0 = PLAYER_TURN \<and> \<not> completed g0 \<and> playerHand g0 = [])
           \<and> createDeck w = rest @ [c4, c3, c2, c1]
           \<and> deck g' = rest \<and> playerHand g' = [c1, c2] \<and> dealerHand g' = [c3, c4\<lparr>hidden := True\<rparr>]
           \<and> (if calculateScore [c1, c2] = 21
               then state g' = GAME_ENDED \<and> completed g'
                  \<and> (\<exists>e. completedGames srv' (gameId g') = Some e \<and> result e = win)
               else state g' = PLAYER_TURN \<and> \<not> completed g' \<and> srv' = srv)"
    by (rule reset_result)
  show "state g = GAME_ENDED \<longrightarrow> hit w g srv = Inl CannotHit \<and> stand w g srv = Inl CannotStand"
    by (simp add: hit_def stand_def)
  show "state g = PLAYER_TURN \<longrightarrow>
            (\<exists>g' srv' c.
                hit w g srv = Inr (g', srv')
              \<and> deck g = deck g' @ [c] \<and> playerHand g' = playerHand g @ [c]
              \<and> dealerHand g' = dealerHand g
              \<and> (if 21 \<le> calculateScore (playerHand g')
                  then state g' = GAME_ENDED \<and> completed g'
                     \<and> (\<exists>e. completedGames srv' (gameId g') = Some e
                            \<and> result e = (if calculateScore (playerHand g') = 21 then win else loss))
                  else state g' = PLAYER_TURN \<and> \<not> completed g' \<and> srv' = srv))
          \<and> (\<exists>g' srv' drawn.
                stand w g srv = Inr (g', srv')
              \<and> state g' = GAME_ENDED \<and> completed g'
              \<and> stateHistory g' = stateHistory g @ [DEALER_TURN, GAME_ENDED]
              \<and> playerHand g' = playerHand g
              \<and> dealerHand g' = map (\<lambda>card. card\<lparr>hidden := False\<rparr>) (dealerHand g) @ drawn
              \<and> deck g = deck g' @ rev drawn
              \<and> (\<exists>e. completedGames srv' (gameId g') = Some e))"
  proof (intro impI conjI)
    assume pt: "state g = PLAYER_TURN"
    note p = reachable_player_turn [OF assms pt]
    from p(3) have ne: "deck g \<noteq> []" by auto
    show "\<exists>g' srv' c.
                hit w g srv = Inr (g', srv')
              \<and> deck g = deck g' @ [c] \<and> playerHand g' = playerHand g @ [c]
              \<and> dealerHand g' = dealerHand g
              \<and> (if 21 \<le> calculateScore (playerHand g')
                  then state g' = GAME_ENDED \<and> completed g'
                     \<and> (\<exists>e. completedGames srv' (gameId g') = Some e
                            \<and> result e = (if calculateScore (playerHand g') = 21 then win else loss))
                  else state g' = PLAYER_TURN \<and> \<not> completed g' \<and> srv' = srv)"
      using pt p(1) ne by (rule hit_result)
    from stand_result [OF pt p, of w srv] obtain g' srv' drawn e where s:
      "stand w g srv = Inr (g', srv')"
      "dealerHand g' = map (\<lambda>card. card\<lparr>hidden := False\<rparr>) (dealerHand g) @ drawn"
      "deck g = deck g' @ rev drawn" "playerHand g' = playerHand g"
      "state g' = GAME_ENDED" "completed g'"
      "stateHistory g' = stateHistory g @ [DEALER_TURN, GAME_ENDED]"
      "completedGames srv' (gameId g) = Some e"
      by blast
    from s(1) obtain d2 where "state g' = GAME_ENDED" by (rule stand_Inr)
    have gid: "gameId g' = gameId g"
      using s(1) pt p(1)
      by (auto simp: stand_def Let_def markGameAsCompleted_def transitionState_def
          isValidStateTransition_def split: option.splits if_splits prod.splits)
    show "\<exists>g' srv' drawn.
                stand w g srv = Inr (g', srv')
              \<and> state g' = GAME_ENDED \<and> completed g'
              \<and> stateHistory g' = stateHistory g @ [DEALER_TURN, GAME_ENDED]
              \<and> playerHand g' = playerHand g
              \<and> dealerHand g' = map (\<lambda>card. card\<lparr>hidden := False\<rparr>) (dealerHand g) @ drawn
              \<and> deck g = deck g' @ rev drawn
              \<and> (\<exists>e. completedGames srv' (gameId g') = Some e)"
      using s gid by (intro exI [of _ g'] exI [of _ srv'] exI [of _ drawn]) simp
  qed
qed
section \<open>Properties of the retention sweepers\<close>

text \<open>
  The sweep of \<^verbatim>\<open>completedGames\<close> goes by age alone: an entry stays exactly when it
  is not older than 24 hours.
\<close>

lemma cleanupOldCompletedGames_by_age:
  "completedGames (cleanupOldCompletedGames w srv) gid =
     (case completedGames srv gid of
        None \<Rightarrow> None
      | Some e \<Rightarrow> if int (timestamp e) + 24 * 60 * 60 * 1000 < int (Date_now w) then None else Some e)"
  by (simp add: cleanupOldCompletedGames_def Let_def split: option.split) 

text \<open>
  A key whose second part starts with a letter is never old for the sweep of
  \<^verbatim>\<open>paidRewards\<close>: \<^verbatim>\<open>parseInt\<close> reads no digit and returns \<^verbatim>\<open>NaN\<close>.
\<close>

lemma parseInt_letter:
  assumes "digit10 c = None" "c \<notin> {CHR '' '', CHR 0x09, CHR 0x0A, CHR 0x0B, CHR 0x0C, CHR 0x0D}"
    "c \<noteq> CHR ''-''" "c \<noteq> CHR ''+''"
  shows "parseInt (c # cs) = None"
  using assms by (simp add: parseInt_def)

lemma paidReward_never_old:
  assumes "split_string CHR ''-'' [] key = address # (c # cs) # others"
    "digit10 c = None" "c \<notin> {CHR '' '', CHR 0x09, CHR 0x0A, CHR 0x0B, CHR 0x0C, CHR 0x0D}"
    "c \<noteq> CHR ''-''" "c \<noteq> CHR ''+''"
  shows "\<not> paidReward_is_old w key"
  using parseInt_letter [OF assms(2-5), of cs] by (simp add: paidReward_is_old_def assms(1))

text \<open>
  C4, on the sweep of \<^verbatim>\<open>paidRewards\<close>. \<^verbatim>\<open>generateSecureId\<close> writes the clock in base
  36 and \<^verbatim>\<open>cleanupOldPaidRewards\<close> reads it back in base 10. The id of a session
  created at 2025-12-24 00:00:00 UTC is \<^verbatim>\<open>mjj8yyo0-...\<close>; \<^verbatim>\<open>parseInt('mjj8yyo0', 10)\<close>
  is \<^verbatim>\<open>NaN\<close>, and the sweep of 2026-01-01, eight days later, keeps the record.
\<close>

theorem cleanupOldPaidRewards_keeps_old_record:
  "int 1766534400000 < int (Date_now example_world) - 7 * 24 * 60 * 60 * 1000
   \<and> generateSecureId (example_world\<lparr>Date_now := 1766534400000\<rparr>) = ''mjj8yyo0-AbCdEfGh12345678''
   \<and> paidRewards
        (cleanupOldPaidRewards example_world
           (example_server\<lparr>paidRewards :=
              [transactionKey (playerId example_game) ''mjj8yyo0-AbCdEfGh12345678'' \<mapsto> Failed]\<rparr>))
        (transactionKey (playerId example_game) ''mjj8yyo0-AbCdEfGh12345678'')
      = Some Failed"
  by (simp add: example_defs generateSecureId_def toString36.simps digit36_def
      cleanupOldPaidRewards_def paidReward_is_old_def transactionKey_def parseInt_def digit10_def)

section \<open>Properties of the view\<close>

lemma calculateScore_open_cards: "calculateScore hand = calculateScore (open_cards hand)"
  by (simp add: calculateScore_def fold_score_step_open open_cards_def)

lemma open_cards_same_but_hidden:
  "list_all2 same_but_hidden dh dh' \<Longrightarrow> open_cards dh = open_cards dh'"
proof (induction rule: list_all2_induct)
  case Nil
  show ?case by simp
next
  case (Cons c cs c' cs')
  show ?case
  proof (cases "hidden c")
    case True
    moreover from True Cons.hyps(1) have "hidden c'" unfolding same_but_hidden_def by blast
    ultimately show ?thesis using Cons.IH by (simp add: open_cards_def)
  next
    case False
    moreover from False Cons.hyps(1) have "c' = c" unfolding same_but_hidden_def by blast
    ultimately show ?thesis using Cons.IH by (simp add: open_cards_def)
  qed
qed

lemma view_same_but_hidden:
  "list_all2 same_but_hidden dh dh' \<Longrightarrow>
     map (\<lambda>card. if hidden card then HiddenCard else Shown card) dh =
     map (\<lambda>card. if hidden card then HiddenCard else Shown card) dh'"
proof (induction rule: list_all2_induct)
  case Nil
  show ?case by simp
next
  case (Cons c cs c' cs')
  show ?case
  proof (cases "hidden c")
    case True
    moreover from True Cons.hyps(1) have "hidden c'" unfolding same_but_hidden_def by blast
    ultimately show ?thesis using Cons.IH by simp
  next
    case False
    moreover from False Cons.hyps(1) have "c' = c" unfolding same_but_hidden_def by blast
    ultimately show ?thesis using Cons.IH by simp
  qed
qed

lemma calculateScore_same_but_hidden:
  assumes "list_all2 same_but_hidden dh dh'"
  shows "calculateScore dh = calculateScore dh'"
    and "calculateScore (filter (\<lambda>card. \<not> hidden card) dh) = calculateScore (filter (\<lambda>card. \<not> hidden card) dh')"
proof -
  have eq: "open_cards dh = open_cards dh'"
    using assms by (rule open_cards_same_but_hidden)
  show "calculateScore dh = calculateScore dh'"
    by (subst (1 2) calculateScore_open_cards) (simp only: eq)
  show "calculateScore (filter (\<lambda>card. \<not> hidden card) dh) = calculateScore (filter (\<lambda>card. \<not> hidden card) dh')"
    using eq by (simp add: open_cards_def)
qed

lemma same_but_hidden_open:
  "list_all2 same_but_hidden hand hand' \<Longrightarrow> \<forall>c\<in>set hand. \<not> hidden c \<Longrightarrow> hand' = hand"
proof (induction rule: list_all2_induct)
  case Nil
  show ?case by simp
next
  case (Cons c cs c' cs')
  from Cons.prems have "\<not> hidden c" by simp
  with Cons.hyps(1) have "c' = c" unfolding same_but_hidden_def by blast
  moreover from Cons.prems have "cs' = cs" by (intro Cons.IH) simp
  ultimately show ?case by simp
qed

lemma getGameState_dealer_hidden:
  assumes "list_all2 same_but_hidden (dealerHand g) dh'"
  shows "getGameState (g\<lparr>dealerHand := dh'\<rparr>) = getGameState g"
  using view_same_but_hidden [OF assms] calculateScore_same_but_hidden [OF assms]
  by (simp add: getGameState_def getMessage_def)

lemma reachable_hands_hidden:
  assumes "reachable g" "list_all2 same_but_hidden (playerHand g) ph'"
    "list_all2 same_but_hidden (dealerHand g) dh'"
  shows "getGameState (g\<lparr>playerHand := ph', dealerHand := dh'\<rparr>) = getGameState g"
proof -
  have "\<forall>c\<in>set (playerHand g). \<not> hidden c" using reachable_supply [OF assms(1)] by simp
  with assms(2) have "ph' = playerHand g" by (rule same_but_hidden_open)
  then have "g\<lparr>playerHand := ph', dealerHand := dh'\<rparr> = g\<lparr>dealerHand := dh'\<rparr>" by simp
  then show ?thesis using getGameState_dealer_hidden [OF assms(3)] by simp
qed

text \<open>
  C8. \<^verbatim>\<open>getGameState\<close> reports every card of the dealer's hand with \<^verbatim>\<open>hidden = true\<close>
  as \<^verbatim>\<open>{ hidden: true }\<close> only, and no field of the view (the dealer's score and the
  message included) depends on the rank or suit of such a card: a session and the same
  session with other hidden cards in the dealer's hand have the same view, in every state.
  The player's hand is sent as it is stored; in the sessions the operations produce none
  of its cards is hidden, so there the view is the same for any two sessions that differ
  only in hidden cards, of either hand.
\<close>

theorem hole_card_not_in_snapshot:
  assumes "list_all2 same_but_hidden (dealerHand g) dh'"
  shows "getGameState (g\<lparr>dealerHand := dh'\<rparr>) = getGameState g
       \<and> (\<forall>i<length (dealerHand g). hidden (dealerHand g ! i) \<longrightarrow>
             view_dealerHand (getGameState g) ! i = HiddenCard)
       \<and> view_playerHand (getGameState g) = playerHand g
       \<and> (reachable g \<longrightarrow>
            (\<forall>c\<in>set (playerHand g). \<not> hidden c)
          \<and> (\<forall>ph'. list_all2 same_but_hidden (playerHand g) ph' \<longrightarrow>
                getGameState (g\<lparr>playerHand := ph', dealerHand := dh'\<rparr>) = getGameState g))"
proof (intro conjI)
  show "getGameState (g\<lparr>dealerHand := dh'\<rparr>) = getGameState g"
    using assms by (rule getGameState_dealer_hidden)
  show "\<forall>i<length (dealerHand g). hidden (dealerHand g ! i) \<longrightarrow>
             view_dealerHand (getGameState g) ! i = HiddenCard"
    by (simp add: getGameState_def)
  show "view_playerHand (getGameState g) = playerHand g"
    by (simp add: getGameState_def)
  show "reachable g \<longrightarrow>
            (\<forall>c\<in>set (playerHand g). \<not> hidden c)
          \<and> (\<forall>ph'. list_all2 same_but_hidden (playerHand g) ph' \<longrightarrow>
                getGameState (g\<lparr>playerHand := ph', dealerHand := dh'\<rparr>) = getGameState g)"
  proof (intro impI conjI allI)
    assume "reachable g"
    then show "\<forall>c\<in>set (playerHand g). \<not> hidden c" using reachable_supply by blast
  next
    fix ph'
    assume "reachable g" "list_all2 same_but_hidden (playerHand g) ph'"
    then show "getGameState (g\<lparr>playerHand := ph', dealerHand := dh'\<rparr>) = getGameState g"
      using assms by (rule reachable_hands_hidden)
  qed
qed

theorem hole_card_not_in_snapshot_witness:
  "\<exists>g srv'.
     BlackjackGame example_world (playerId example_game) (example_server\<lparr>activePlayers := {}\<rparr>)
       = Inr (g, srv')
   \<and> reachable g
   \<and> dealerHand g = [\<lparr>suit = spades, rank = Jack, hidden = False\<rparr>,
                     \<lparr>suit = spades, rank = N10, hidden = True\<rparr>]
   \<and> list_all2 same_but_hidden (dealerHand g)
        [\<lparr>suit = spades, rank = Jack, hidden = False\<rparr>, \<lparr>suit = hearts, rank = Ace, hidden = True\<rparr>]
   \<and> getGameState (g\<lparr>dealerHand :=
        [\<lparr>suit = spades, rank = Jack, hidden = False\<rparr>, \<lparr>suit = hearts, rank = Ace, hidden = True\<rparr>]\<rparr>)
       = getGameState g
   \<and> view_dealerHand (getGameState g) = [Shown \<lparr>suit = spades, rank = Jack, hidden = False\<rparr>, HiddenCard]
   \<and> view_dealerScore (getGameState g) = 10
   \<and> view_playerHand (getGameState g) = [\<lparr>suit = spades, rank = King, hidden = False\<rparr>,
                                          \<lparr>suit = spades, rank = Queen, hidden = False\<rparr>]
   \<and> getGameState (g\<lparr>playerHand := playerHand g, dealerHand :=
        [\<lparr>suit = spades, rank = Jack, hidden = False\<rparr>, \<lparr>suit = hearts, rank = Ace, hidden = True\<rparr>]\<rparr>)
       = getGameState g"
proof -
  obtain g srv' where s:
    "BlackjackGame example_world (playerId example_game) (example_server\<lparr>activePlayers := {}\<rparr>)
       = Inr (g, srv')"
    "reachable g"
    "playerHand g = [\<lparr>suit = spades, rank = King, hidden = False\<rparr>,
                     \<lparr>suit = spades, rank = Queen, hidden = False\<rparr>]"
    "dealerHand g = [\<lparr>suit = spades, rank = Jack, hidden = False\<rparr>,
                     \<lparr>suit = spades, rank = N10, hidden = True\<rparr>]"
    by (rule example_session)
  let ?dh = "[\<lparr>suit = spades, rank = Jack, hidden = False\<rparr>, \<lparr>suit = hearts, rank = Ace, hidden = True\<rparr>]"
  have h: "list_all2 same_but_hidden (dealerHand g) ?dh"
    unfolding s(4) by (simp add: same_but_hidden_def)
  have p: "list_all2 same_but_hidden (playerHand g) (playerHand g)"
    unfolding s(3) by (simp add: same_but_hidden_def)
  from hole_card_not_in_snapshot [OF h] s(2) p
  have t: "getGameState (g\<lparr>dealerHand := ?dh\<rparr>) = getGameState g"
    "view_playerHand (getGameState g) = playerHand g"
    "getGameState (g\<lparr>playerHand := playerHand g, dealerHand := ?dh\<rparr>) = getGameState g"
    by blast+
  have v: "view_dealerHand (getGameState g) = [Shown \<lparr>suit = spades, rank = Jack, hidden = False\<rparr>, HiddenCard]"
    "view_dealerScore (getGameState g) = 10"
    by (simp_all add: getGameState_def s(4) calculateScore_def score_step_def soften.simps)
  show ?thesis
    using s h t v by (intro exI [of _ g] exI [of _ srv'] conjI) simp_all
qed

section \<open>Properties of session creation\<close>

lemma create_route_live:
  assumes "pid \<in> activePlayers srv" "games srv pid = Some g" "PublicKey_ok w pid" "pid \<noteq> []"
  shows "create_route w \<lparr>req_playerId = Some pid, req_entryFeePaid = True\<rparr> srv = (Json (getGameState g), srv)"
  using assms by (simp add: create_route_def)

text \<open>
  C9 (as amended). For a player who is in \<^verbatim>\<open>activePlayers\<close> and has a session in
  \<^verbatim>\<open>games\<close>, a well-formed create request does not fail: the route answers with the
  view of the existing session and changes nothing, so no second session is made. The
  constructor itself, called for a player in \<^verbatim>\<open>activePlayers\<close>, throws the
  already-active error; the route never lets it come to that.
\<close>

theorem create_with_live_session:
  assumes "pid \<in> activePlayers srv" "games srv pid = Some g" "PublicKey_ok w pid" "pid \<noteq> []"
  shows "create_route w \<lparr>req_playerId = Some pid, req_entryFeePaid = True\<rparr> srv = (Json (getGameState g), srv)
       \<and> BlackjackGame w pid srv = Inl AlreadyActive"
  using assms create_route_live [OF assms] by (simp add: BlackjackGame_def)

theorem create_with_live_session_witness:
  "playerId example_game \<in> activePlayers example_server
   \<and> games example_server (playerId example_game) = Some example_game
   \<and> PublicKey_ok example_world (playerId example_game)
   \<and> playerId example_game \<noteq> []
   \<and> create_route example_world \<lparr>req_playerId = Some (playerId example_game), req_entryFeePaid = True\<rparr> example_server
       = (Json (getGameState example_game), example_server)
   \<and> BlackjackGame example_world (playerId example_game) example_server = Inl AlreadyActive"
proof -
  have h: "playerId example_game \<in> activePlayers example_server"
    "games example_server (playerId example_game) = Some example_game"
    "PublicKey_ok example_world (playerId example_game)"
    "playerId example_game \<noteq> []"
    by (simp_all add: example_defs)
  from create_with_live_session [OF h] h show ?thesis by simp
qed

text \<open>
  C9 (as stated) fails: the create request of the example player, who has a live session,
  is answered with status 200 and the view of that session, not with an error.
\<close>

theorem create_with_live_session_succeeds:
  "create_route example_world
      \<lparr>req_playerId = Some ''8VPZGxMMcyFykMPAApeyhsNwVtrgXZYpu28Rm2iLknbq'', req_entryFeePaid = True\<rparr>
      example_server
   = (Json (getGameState example_game), example_server)
   \<and> ''8VPZGxMMcyFykMPAApeyhsNwVtrgXZYpu28Rm2iLknbq'' \<in> activePlayers example_server
   \<and> games example_server ''8VPZGxMMcyFykMPAApeyhsNwVtrgXZYpu28Rm2iLknbq'' = Some example_game"
proof -
  have h: "''8VPZGxMMcyFykMPAApeyhsNwVtrgXZYpu28Rm2iLknbq'' \<in> activePlayers example_server"
    "games example_server ''8VPZGxMMcyFykMPAApeyhsNwVtrgXZYpu28Rm2iLknbq'' = Some example_game"
    "PublicKey_ok example_world ''8VPZGxMMcyFykMPAApeyhsNwVtrgXZYpu28Rm2iLknbq''"
    "''8VPZGxMMcyFykMPAApeyhsNwVtrgXZYpu28Rm2iLknbq'' \<noteq> []"
    by (simp_all add: example_server_def example_world_def)
  from create_route_live [OF h] h(1,2) show ?thesis by simp
qed

section \<open>Properties of the session's operations\<close>

text \<open>
  C5. A session made by the constructor (a valid player who is not active) holds the four
  cards from the top of the shuffled deck: two for the player, two for the dealer, the
  dealer's second one hidden, and the deck without them. When the player's two cards
  score 21 the session is in \<^verbatim>\<open>GAME_ENDED\<close>, completed, and the ledger records a win,
  whatever the dealer's cards are; the dealer's hand is still the two cards dealt, the
  second hidden. Otherwise the session is in \<^verbatim>\<open>PLAYER_TURN\<close> and not completed.
\<close>

theorem created_session_dealt:
  assumes "PublicKey_ok w pid" "pid \<notin> activePlayers srv"
  shows "\<exists>g srv' rest c4 c3 c2 c1.
      BlackjackGame w pid srv = Inr (g, srv')
    \<and> createDeck w = rest @ [c4, c3, c2, c1]
    \<and> playerHand g = [c1, c2] \<and> dealerHand g = [c3, c4\<lparr>hidden := True\<rparr>] \<and> deck g = rest
    \<and> \<not> hidden c1 \<and> \<not> hidden c2 \<and> \<not> hidden c3
    \<and> playerId g = pid
    \<and> (if calculateScore [c1, c2] = 21
        then state g = GAME_ENDED \<and> completed g
           \<and> (\<exists>e. completedGames srv' (gameId g) = Some e \<and> result e = win \<and> entry_playerId e = pid)
        else state g = PLAYER_TURN \<and> \<not> completed g)"
proof -
  obtain rest c4 c3 c2 c1 where top: "createDeck w = rest @ [c4, c3, c2, c1]"
    and op: "\<not> hidden c1" "\<not> hidden c2" "\<not> hidden c3"
    by (rule createDeck_top)
  let ?g = "\<lparr>playerId = pid, gameId = generateSecureId w, completed = False, deck = [],
        playerHand = [], dealerHand = [], state = PLAYER_TURN, currentBet = ENTRY_FEE,
        rewardPaid = False, stateHistory = []\<rparr>"
  let ?srv = "srv\<lparr>activePlayers := insert pid (activePlayers srv)\<rparr>"
  obtain g' srv' where r: "reset w ?g ?srv = Inr (g', srv')"
    "deck g' = rest" "playerHand g' = [c1, c2]" "dealerHand g' = [c3, c4\<lparr>hidden := True\<rparr>]"
    "playerId g' = playerId ?g"
    "calculateScore [c1, c2] = 21 \<Longrightarrow>
       state g' = GAME_ENDED \<and> completed g' \<and> stateHistory g' = [PLAYER_TURN, GAME_ENDED]
       \<and> (\<exists>e. completedGames srv' (gameId g') = Some e \<and> result e = win
              \<and> entry_playerId e = playerId ?g \<and> timestamp e = Date_now w)"
    "calculateScore [c1, c2] \<noteq> 21 \<Longrightarrow>
       state g' = PLAYER_TURN \<and> \<not> completed g' \<and> stateHistory g' = [PLAYER_TURN] \<and> srv' = ?srv"
    using reset_fields [OF top, of ?g ?srv] by metis
  have "BlackjackGame w pid srv = Inr (g', srv')"
    using BlackjackGame_reset [OF assms] r(1) by simp
  moreover have "if calculateScore [c1, c2] = 21
        then state g' = GAME_ENDED \<and> completed g'
           \<and> (\<exists>e. completedGames srv' (gameId g') = Some e \<and> result e = win \<and> entry_playerId e = pid)
        else state g' = PLAYER_TURN \<and> \<not> completed g'"
    using r(6,7) by (cases "calculateScore [c1, c2] = 21") auto
  moreover have "playerId g' = pid" using r(5) by simp
  ultimately show ?thesis using top op r(2-4) by blast
qed

lemma createDeck_natural_world:
  "drop 308 (createDeck natural_world) =
   [\<lparr>suit = spades, rank = N10, hidden = False\<rparr>,
    \<lparr>suit = spades, rank = Jack, hidden = False\<rparr>,
    \<lparr>suit = spades, rank = Queen, hidden = False\<rparr>,
    \<lparr>suit = spades, rank = Ace, hidden = False\<rparr>]"
proof -
  have "drop 308 (shuffle (\<lambda>i. if i = 311 then 299 else i) 311 six_decks) =
   [\<lparr>suit = spades, rank = N10, hidden = False\<rparr>,
    \<lparr>suit = spades, rank = Jack, hidden = False\<rparr>,
    \<lparr>suit = spades, rank = Queen, hidden = False\<rparr>,
    \<lparr>suit = spades, rank = Ace, hidden = False\<rparr>]"
    by code_simp
  then show ?thesis
    by (simp add: createDeck_def natural_world_def length_six_decks)
qed

theorem created_session_dealt_witness:
  "PublicKey_ok natural_world (playerId example_game)
   \<and> playerId example_game \<notin> activePlayers (example_server\<lparr>activePlayers := {}\<rparr>)
   \<and> (\<exists>g srv'. BlackjackGame natural_world (playerId example_game) (example_server\<lparr>activePlayers := {}\<rparr>)
          = Inr (g, srv')
        \<and> playerHand g = [\<lparr>suit = spades, rank = Ace, hidden = False\<rparr>,
                          \<lparr>suit = spades, rank = Queen, hidden = False\<rparr>]
        \<and> dealerHand g = [\<lparr>suit = spades, rank = Jack, hidden = False\<rparr>,
                          \<lparr>suit = spades, rank = N10, hidden = True\<rparr>]
        \<and> calculateScore (playerHand g) = 21
        \<and> state g = GAME_ENDED \<and> completed g
        \<and> (\<exists>e. completedGames srv' (gameId g) = Some e \<and> result e = win))"
proof -
  have h: "PublicKey_ok natural_world (playerId example_game)"
    "playerId example_game \<notin> activePlayers (example_server\<lparr>activePlayers := {}\<rparr>)"
    by (simp_all add: natural_world_def example_defs)
  from created_session_dealt [OF h]
  obtain g srv' rest c4 c3 c2 c1 where r:
    "BlackjackGame natural_world (playerId example_game) (example_server\<lparr>activePlayers := {}\<rparr>) = Inr (g, srv')"
    "createDeck natural_world = rest @ [c4, c3, c2, c1]"
    "playerHand g = [c1, c2]" "dealerHand g = [c3, c4\<lparr>hidden := True\<rparr>]"
    "if calculateScore [c1, c2] = 21
        then state g = GAME_ENDED \<and> completed g
           \<and> (\<exists>e. completedGames srv' (gameId g) = Some e \<and> result e = win \<and> entry_playerId e = playerId example_game)
        else state g = PLAYER_TURN \<and> \<not> completed g"
    by blast
  have "length rest = 308" using length_createDeck [of natural_world] unfolding r(2) by simp
  then have "drop 308 (createDeck natural_world) = [c4, c3, c2, c1]" unfolding r(2) by simp
  then have c: "c4 = \<lparr>suit = spades, rank = N10, hidden = False\<rparr>"
    "c3 = \<lparr>suit = spades, rank = Jack, hidden = False\<rparr>"
    "c2 = \<lparr>suit = spades, rank = Queen, hidden = False\<rparr>"
    "c1 = \<lparr>suit = spades, rank = Ace, hidden = False\<rparr>"
    unfolding createDeck_natural_world by simp_all
  have s: "calculateScore [c1, c2] = 21"
    unfolding c by (simp add: calculateScore_def score_step_def soften.simps)
  from r(5) s have e: "state g = GAME_ENDED" "completed g"
    "\<exists>e. completedGames srv' (gameId g) = Some e \<and> result e = win"
    by auto
  show ?thesis
    using h r(1,3,4) s e unfolding c by simp
qed

text \<open>
  C6. For a session in \<^verbatim>\<open>PLAYER_TURN\<close> that is not completed, with at least seventeen
  cards in the deck, none of them hidden (which \<open>reachable_player_turn\<close> shows of
  every session the operations produce), \<^verbatim>\<open>stand\<close> returns. The dealer's hand is then the
  old one with every card revealed, followed by the cards drawn from the top of the deck;
  before each draw the dealer's score was below 17, and at the end it is at least 17 (so
  nothing is drawn once it is). The session is in \<^verbatim>\<open>GAME_ENDED\<close> and completed, and the
  ledger records a loss when the player's score is above 21, otherwise a win when the
  dealer's score is above 21 or below the player's, otherwise (a tie included) a loss.
\<close>

theorem stand_plays_dealer:
  assumes "state g = PLAYER_TURN" "\<not> completed g"
    "\<forall>c\<in>set (deck g). \<not> hidden c" "17 \<le> length (deck g)"
  shows "\<exists>g' srv' drawn.
      stand w g srv = Inr (g', srv')
    \<and> dealerHand g' = map (\<lambda>card. card\<lparr>hidden := False\<rparr>) (dealerHand g) @ drawn
    \<and> deck g = deck g' @ rev drawn
    \<and> (\<forall>k<length drawn.
          calculateScore (map (\<lambda>card. card\<lparr>hidden := False\<rparr>) (dealerHand g) @ take k drawn) < 17)
    \<and> 17 \<le> calculateScore (dealerHand g')
    \<and> (\<forall>c\<in>set (dealerHand g'). \<not> hidden c)
    \<and> playerHand g' = playerHand g
    \<and> state g' = GAME_ENDED \<and> completed g'
    \<and> stateHistory g' = stateHistory g @ [DEALER_TURN, GAME_ENDED]
    \<and> (\<exists>e. completedGames srv' (gameId g) = Some e \<and> entry_playerId e = playerId g
          \<and> result e =
               (if calculateScore (playerHand g) > 21 then loss
                else if calculateScore (dealerHand g') > 21
                      \<or> calculateScore (playerHand g) > calculateScore (dealerHand g') then win
                else loss))"
  using assms by (rule stand_result)

theorem stand_plays_dealer_witness:
  "state standing_game = PLAYER_TURN \<and> \<not> completed standing_game
   \<and> 17 \<le> length (deck standing_game)
   \<and> (\<exists>g' srv'. stand example_world standing_game example_server = Inr (g', srv')
        \<and> dealerHand g' = [\<lparr>suit = diamonds, rank = N10, hidden = False\<rparr>,
                           \<lparr>suit = spades, rank = N5, hidden = False\<rparr>,
                           \<lparr>suit = hearts, rank = N4, hidden = False\<rparr>]
        \<and> calculateScore (dealerHand g') = 19
        \<and> calculateScore (playerHand g') = 18
        \<and> state g' = GAME_ENDED \<and> completed g'
        \<and> (\<exists>e. completedGames srv' (gameId standing_game) = Some e \<and> result e = loss))"
proof -
  let ?c4 = "\<lparr>suit = hearts, rank = N4, hidden = False\<rparr>"
  let ?revealed = "[\<lparr>suit = diamonds, rank = N10, hidden = False\<rparr>,
                    \<lparr>suit = spades, rank = N5, hidden = False\<rparr>]"
  have h: "state standing_game = PLAYER_TURN" "\<not> completed standing_game"
    "\<forall>c\<in>set (deck standing_game). \<not> hidden c" "17 \<le> length (deck standing_game)"
    by (simp_all add: standing_game_def)
  have rv: "map (\<lambda>card. card\<lparr>hidden := False\<rparr>) (dealerHand standing_game) = ?revealed"
    by (simp add: standing_game_def)
  have dk: "deck standing_game = replicate 16 \<lparr>suit = hearts, rank = N5, hidden = False\<rparr> @ [?c4]"
    by (simp add: standing_game_def)
  have ph: "calculateScore (playerHand standing_game) = 18"
    by (simp add: standing_game_def calculateScore_def score_step_def soften.simps)
  have s15: "calculateScore ?revealed = 15" and s19: "calculateScore (?revealed @ [?c4]) = 19"
    by (simp_all add: calculateScore_def score_step_def soften.simps)
  from stand_plays_dealer [OF h, of example_world example_server]
  obtain g' srv' drawn e where r:
    "stand example_world standing_game example_server = Inr (g', srv')"
    "dealerHand g' = ?revealed @ drawn"
    "deck standing_game = deck g' @ rev drawn"
    "\<forall>k<length drawn. calculateScore (?revealed @ take k drawn) < 17"
    "17 \<le> calculateScore (dealerHand g')"
    "playerHand g' = playerHand standing_game"
    "state g' = GAME_ENDED" "completed g'"
    "completedGames srv' (gameId standing_game) = Some e"
    "result e =
       (if calculateScore (playerHand standing_game) > 21 then loss
        else if calculateScore (dealerHand g') > 21
              \<or> calculateScore (playerHand standing_game) > calculateScore (dealerHand g') then win
        else loss)"
    unfolding rv by blast
  have "drawn \<noteq> []"
  proof
    assume "drawn = []"
    with r(2,5) s15 show False by simp
  qed
  then obtain x xs where dx: "drawn = x # xs" by (cases drawn) auto
  have "deck g' @ rev xs @ [x] = replicate 16 \<lparr>suit = hearts, rank = N5, hidden = False\<rparr> @ [?c4]"
    using r(3) unfolding dk dx by simp
  then have x: "x = ?c4" by (metis append_assoc snoc_eq_iff_butlast last_snoc)
  have "xs = []"
  proof (rule ccontr)
    assume "xs \<noteq> []"
    then have "1 < length drawn" unfolding dx by (cases xs) auto
    with r(4) have "calculateScore (?revealed @ take 1 drawn) < 17" by blast
    then show False using s19 unfolding dx x by simp
  qed
  then have dh: "dealerHand g' = ?revealed @ [?c4]" using r(2) dx x by simp
  have "result e = loss" using r(10) unfolding dh s19 ph by simp
  with r(9) have "\<exists>e. completedGames srv' (gameId standing_game) = Some e \<and> result e = loss"
    by blast
  moreover have "calculateScore (playerHand g') = 18" using r(6) ph by simp
  moreover have "calculateScore (dealerHand g') = 19" unfolding dh by (rule s19)
  ultimately show ?thesis
    using h(1,2,4) r(1,7,8) dh by (intro conjI exI [of _ g'] exI [of _ srv']) simp_all
qed

text \<open>
  C10. In every session that evolves through the operations (the constructor, \<^verbatim>\<open>reset\<close>,
  \<^verbatim>\<open>hit\<close>, \<^verbatim>\<open>stand\<close>, and the payout, which leaves the session as it is),
  \<^verbatim>\<open>completed\<close> is true exactly when the state is \<^verbatim>\<open>GAME_ENDED\<close>, and the state is
  \<^verbatim>\<open>PLAYER_TURN\<close> or \<^verbatim>\<open>GAME_ENDED\<close> (\<^verbatim>\<open>DEALER_TURN\<close> is passed through inside
  \<^verbatim>\<open>stand\<close>). Operation by operation:

    \<^item> \<^verbatim>\<open>markGameAsCompleted\<close> does nothing on a completed session;
    \<^item> \<^verbatim>\<open>reset\<close> always returns; it restores \<^verbatim>\<open>PLAYER_TURN\<close> and \<^verbatim>\<open>completed = false\<close>
      together on an empty hand and then deals from the new deck: the session it returns
      is in \<^verbatim>\<open>PLAYER_TURN\<close> and not completed, the ledger untouched, unless the two cards
      dealt to the player total 21, and then it is in \<^verbatim>\<open>GAME_ENDED\<close>, completed, with its
      win in the ledger;
    \<^item> in \<^verbatim>\<open>PLAYER_TURN\<close>, \<^verbatim>\<open>hit\<close> returns with the top card of the deck added to the
      player's hand; at a total of 21 or more the session is in \<^verbatim>\<open>GAME_ENDED\<close>, completed,
      with its entry in the ledger, and below 21 it stays in \<^verbatim>\<open>PLAYER_TURN\<close>, not
      completed, the ledger untouched;
    \<^item> in \<^verbatim>\<open>PLAYER_TURN\<close>, \<^verbatim>\<open>stand\<close> returns a session in \<^verbatim>\<open>GAME_ENDED\<close>, completed, that
      went through \<^verbatim>\<open>DEALER_TURN\<close>, with its entry in the ledger;
    \<^item> in \<^verbatim>\<open>GAME_ENDED\<close>, \<^verbatim>\<open>hit\<close> and \<^verbatim>\<open>stand\<close> are refused.
\<close>

theorem completed_iff_ended:
  assumes "reachable g"
  shows "(completed g \<longleftrightarrow> state g = GAME_ENDED)
       \<and> (state g = PLAYER_TURN \<or> state g = GAME_ENDED)
       \<and> (completed g \<longrightarrow> markGameAsCompleted w playerWon g srv = (g, srv))
       \<and> (\<exists>g' srv' rest c4 c3 c2 c1.
             reset w g srv = Inr (g', srv')
           \<and> (\<exists>g0. reset w g srv = dealInitialCards w g0 srv
                     \<and> state g0 = PLAYER_TURN \<and> \<not> completed g0 \<and> playerHand g0 = [])
           \<and> createDeck w = rest @ [c4, c3, c2, c1]
           \<and> deck g' = rest \<and> playerHand g' = [c1, c2] \<and> dealerHand g' = [c3, c4\<lparr>hidden := True\<rparr>]
           \<and> (if calculateScore [c1, c2] = 21
               then state g' = GAME_ENDED \<and> completed g'
                  \<and> (\<exists>e. completedGames srv' (gameId g') = Some e \<and> result e = win)
               else state g' = PLAYER_TURN \<and> \<not> completed g' \<and> srv' = srv))
       \<and> (state g = PLAYER_TURN \<longrightarrow>
            (\<exists>g' srv' c.
                hit w g srv = Inr (g', srv')
              \<and> deck g = deck g' @ [c] \<and> playerHand g' = playerHand g @ [c]
              \<and> dealerHand g' = dealerHand g
              \<and> (if 21 \<le> calculateScore (playerHand g')
                  then state g' = GAME_ENDED \<and> completed g'
                     \<and> (\<exists>e. completedGames srv' (gameId g') = Some e
                            \<and> result e = (if calculateScore (playerHand g') = 21 then win else loss))
                  else state g' = PLAYER_TURN \<and> \<not> completed g' \<and> srv' = srv))
          \<and> (\<exists>g' srv' drawn.
                stand w g srv = Inr (g', srv')
              \<and> state g' = GAME_ENDED \<and> completed g'
              \<and> stateHistory g' = stateHistory g @ [DEALER_TURN, GAME_ENDED]
              \<and> playerHand g' = playerHand g
              \<and> dealerHand g' = map (\<lambda>card. card\<lparr>hidden := False\<rparr>) (dealerHand g) @ drawn
              \<and> deck g = deck g' @ rev drawn
              \<and> (\<exists>e. completedGames srv' (gameId g') = Some e)))
       \<and> (state g = GAME_ENDED \<longrightarrow> hit w g srv = Inl CannotHit \<and> stand w g srv = Inl CannotStand)"
  using assms by (rule reachable_operations)

theorem completed_iff_ended_witness:
  "\<exists>g srv' gh srvh gs srvs gr srvr gn srvn.
       BlackjackGame example_world (playerId example_game) (example_server\<lparr>activePlayers := {}\<rparr>)
         = Inr (g, srv')
     \<and> reachable g \<and> state g = PLAYER_TURN \<and> \<not> completed g
     \<and> hit example_world g srv' = Inr (gh, srvh)
     \<and> playerHand gh = [\<lparr>suit = spades, rank = King, hidden = False\<rparr>, \<lparr>suit = spades, rank = Queen, hidden = False\<rparr>, \<lparr>suit = spades, rank = N9, hidden = False\<rparr>]
     \<and> state gh = GAME_ENDED \<and> completed gh
     \<and> stand example_world g srv' = Inr (gs, srvs)
     \<and> reachable gs \<and> state gs = GAME_ENDED \<and> completed gs
     \<and> hit example_world gs srvs = Inl CannotHit
     \<and> stand example_world gs srvs = Inl CannotStand
     \<and> reset example_world gs srvs = Inr (gr, srvr)
     \<and> playerHand gr = [\<lparr>suit = spades, rank = King, hidden = False\<rparr>, \<lparr>suit = spades, rank = Queen, hidden = False\<rparr>]
     \<and> state gr = PLAYER_TURN \<and> \<not> completed gr
     \<and> reset natural_world gs srvs = Inr (gn, srvn)
     \<and> playerHand gn = [\<lparr>suit = spades, rank = Ace, hidden = False\<rparr>, \<lparr>suit = spades, rank = Queen, hidden = False\<rparr>]
     \<and> state gn = GAME_ENDED \<and> completed gn"
proof -
  obtain g srv' where c: "BlackjackGame example_world (playerId example_game)
       (example_server\<lparr>activePlayers := {}\<rparr>) = Inr (g, srv')"
    and r: "reachable g"
    and ph: "playerHand g = [\<lparr>suit = spades, rank = King, hidden = False\<rparr>, \<lparr>suit = spades, rank = Queen, hidden = False\<rparr>]"
    and pt: "state g = PLAYER_TURN" and nc: "\<not> completed g"
    and dk: "deck g = take 308 (createDeck example_world)"
    by (rule example_session)
  note t = completed_iff_ended [OF r, where w = example_world and srv = srv']
  from t pt have "\<exists>gh srvh c. hit example_world g srv' = Inr (gh, srvh)
      \<and> deck g = deck gh @ [c] \<and> playerHand gh = playerHand g @ [c]
      \<and> dealerHand gh = dealerHand g
      \<and> (if 21 \<le> calculateScore (playerHand gh)
          then state gh = GAME_ENDED \<and> completed gh
             \<and> (\<exists>e. completedGames srvh (gameId gh) = Some e
                    \<and> result e = (if calculateScore (playerHand gh) = 21 then win else loss))
          else state gh = PLAYER_TURN \<and> \<not> completed gh \<and> srvh = srv')"
    by simp
  then obtain gh srvh c where h: "hit example_world g srv' = Inr (gh, srvh)"
    "deck g = deck gh @ [c]" "playerHand gh = playerHand g @ [c]"
    "21 \<le> calculateScore (playerHand gh) \<Longrightarrow> state gh = GAME_ENDED \<and> completed gh"
    by (elim exE conjE) simp
  have "c = last (deck g)" unfolding h(2) by simp
  also have "\<dots> = createDeck example_world ! 307"
  proof -
    have "take (Suc 307) (createDeck example_world)
        = take 307 (createDeck example_world) @ [createDeck example_world ! 307]"
      by (rule take_Suc_conv_app_nth) (simp add: length_createDeck)
    then have "last (take (Suc 307) (createDeck example_world)) = createDeck example_world ! 307"
      by (simp only: last_snoc)
    then show ?thesis unfolding dk by simp
  qed
  finally have cv: "c = \<lparr>suit = spades, rank = N9, hidden = False\<rparr>" unfolding createDeck_example_world_next .
  have hh: "playerHand gh = [\<lparr>suit = spades, rank = King, hidden = False\<rparr>, \<lparr>suit = spades, rank = Queen, hidden = False\<rparr>, \<lparr>suit = spades, rank = N9, hidden = False\<rparr>]" unfolding h(3) ph cv by simp
  have "21 \<le> calculateScore (playerHand gh)"
    unfolding hh by (simp add: calculateScore_def score_step_def soften.simps)
  with h(4) have he: "state gh = GAME_ENDED" "completed gh" by simp_all
  from t pt have "\<exists>gs srvs drawn. stand example_world g srv' = Inr (gs, srvs)
      \<and> state gs = GAME_ENDED \<and> completed gs
      \<and> stateHistory gs = stateHistory g @ [DEALER_TURN, GAME_ENDED]
      \<and> playerHand gs = playerHand g
      \<and> dealerHand gs = map (\<lambda>card. card\<lparr>hidden := False\<rparr>) (dealerHand g) @ drawn
      \<and> deck g = deck gs @ rev drawn
      \<and> (\<exists>e. completedGames srvs (gameId gs) = Some e)"
    by simp
  then obtain gs srvs where s: "stand example_world g srv' = Inr (gs, srvs)"
    "state gs = GAME_ENDED" "completed gs"
    by (elim exE conjE)
  from r s(1) have rs: "reachable gs" by (rule reachable.stand)
  note u = completed_iff_ended [OF rs, where w = example_world and srv = srvs]
  from u s(2) have gate: "hit example_world gs srvs = Inl CannotHit"
    "stand example_world gs srvs = Inl CannotStand" by simp_all
  from u have "\<exists>gr srvr rest c4 c3 c2 c1.
        reset example_world gs srvs = Inr (gr, srvr)
      \<and> (\<exists>g0. reset example_world gs srvs = dealInitialCards example_world g0 srvs
                \<and> state g0 = PLAYER_TURN \<and> \<not> completed g0 \<and> playerHand g0 = [])
      \<and> createDeck example_world = rest @ [c4, c3, c2, c1]
      \<and> deck gr = rest \<and> playerHand gr = [c1, c2] \<and> dealerHand gr = [c3, c4\<lparr>hidden := True\<rparr>]
      \<and> (if calculateScore [c1, c2] = 21
          then state gr = GAME_ENDED \<and> completed gr
             \<and> (\<exists>e. completedGames srvr (gameId gr) = Some e \<and> result e = win)
          else state gr = PLAYER_TURN \<and> \<not> completed gr \<and> srvr = srvs)"
    by simp
  then obtain gr srvr rest c4 c3 c2 c1 where a: "reset example_world gs srvs = Inr (gr, srvr)"
    "createDeck example_world = rest @ [c4, c3, c2, c1]" "playerHand gr = [c1, c2]"
    "if calculateScore [c1, c2] = 21 then state gr = GAME_ENDED \<and> completed gr
     else state gr = PLAYER_TURN \<and> \<not> completed gr"
    by (elim exE conjE) (simp split: if_splits)
  have "length rest = 308" using length_createDeck [of example_world] unfolding a(2) by simp
  then have "drop 308 (createDeck example_world) = [c4, c3, c2, c1]" unfolding a(2) by simp
  then have ca: "c1 = \<lparr>suit = spades, rank = King, hidden = False\<rparr>" "c2 = \<lparr>suit = spades, rank = Queen, hidden = False\<rparr>"
    unfolding createDeck_example_world by simp_all
  have "calculateScore [c1, c2] \<noteq> 21"
    unfolding ca by (simp add: calculateScore_def score_step_def soften.simps)
  with a(4) have ae: "state gr = PLAYER_TURN" "\<not> completed gr" by simp_all
  note v = completed_iff_ended [OF rs, where w = natural_world and srv = srvs]
  from v have "\<exists>gn srvn rest' d4 d3 d2 d1.
        reset natural_world gs srvs = Inr (gn, srvn)
      \<and> (\<exists>g0. reset natural_world gs srvs = dealInitialCards natural_world g0 srvs
                \<and> state g0 = PLAYER_TURN \<and> \<not> completed g0 \<and> playerHand g0 = [])
      \<and> createDeck natural_world = rest' @ [d4, d3, d2, d1]
      \<and> deck gn = rest' \<and> playerHand gn = [d1, d2] \<and> dealerHand gn = [d3, d4\<lparr>hidden := True\<rparr>]
      \<and> (if calculateScore [d1, d2] = 21
          then state gn = GAME_ENDED \<and> completed gn
             \<and> (\<exists>e. completedGames srvn (gameId gn) = Some e \<and> result e = win)
          else state gn = PLAYER_TURN \<and> \<not> completed gn \<and> srvn = srvs)"
    by simp
  then obtain gn srvn rest' d4 d3 d2 d1 where b: "reset natural_world gs srvs = Inr (gn, srvn)"
    "createDeck natural_world = rest' @ [d4, d3, d2, d1]" "playerHand gn = [d1, d2]"
    "if calculateScore [d1, d2] = 21 then state gn = GAME_ENDED \<and> completed gn
     else state gn = PLAYER_TURN \<and> \<not> completed gn"
    by (elim exE conjE) (simp split: if_splits)
  have "length rest' = 308" using length_createDeck [of natural_world] unfolding b(2) by simp
  then have "drop 308 (createDeck natural_world) = [d4, d3, d2, d1]" unfolding b(2) by simp
  then have cb: "d1 = \<lparr>suit = spades, rank = Ace, hidden = False\<rparr>" "d2 = \<lparr>suit = spades, rank = Queen, hidden = False\<rparr>"
    unfolding createDeck_natural_world by simp_all
  have "calculateScore [d1, d2] = 21"
    unfolding cb by (simp add: calculateScore_def score_step_def soften.simps)
  with b(4) have be: "state gn = GAME_ENDED" "completed gn" by simp_all
  note a3 = a(3) [unfolded ca] and b3 = b(3) [unfolded cb]
  show ?thesis
    by (intro exI [of _ g] exI [of _ srv'] exI [of _ gh] exI [of _ srvh] exI [of _ gs]
        exI [of _ srvs] exI [of _ gr] exI [of _ srvr] exI [of _ gn] exI [of _ srvn] conjI)
      (fact c r pt nc h(1) hh he s rs gate a(1) a3 ae b(1) b3 be)+
qed
end
